theory Spec2Isabelle
  imports Main "HOL-Library.Sublist"
begin

section \<open>Foreign-key checks and cascades of the executor (executor/foreign\_key.go)\<close>

text \<open>
  A shallow embedding of \<^verbatim>\<open>executor/foreign_key.go\<close>. Keys and values are byte
  strings; a Go \<^verbatim>\<open>nil\<close> slice is the empty list (the code only ever takes its
  length). Every \<^verbatim>\<open>(result, error)\<close> pair of the Go code is a sum
  \<open>error + result\<close>, and every mutation of an engine or of the transaction is
  explicit state passing.
\<close>

subsection \<open>Data\<close>

type_synonym key = string
type_synonym bytes = string

text \<open>
  Modelled from the spec: the cascade kinds (\<^verbatim>\<open>plannercore.FKCascadeType\<close> is declared
  outside this file). ON DELETE is the one kind the file generates a statement for;
  \<open>FKCascadeOnUpdate\<close> stands for any other requested kind.
\<close>

datatype FKCascadeType = FKCascadeOnDelete | FKCascadeOnUpdate

text \<open>
  The errors the file produces or passes on. \<open>ErrNotExist\<close> is the one error for which
  \<^verbatim>\<open>kv.IsErrNotFound\<close> holds; \<open>ErrExternal\<close> stands for a failure reported by a
  collaborator (storage, codec, compiler), named by its message; \<open>GoPanic\<close> is a
  run-time panic (nil dereference, index out of range), which unwinds every caller.
\<close>

datatype error =
    ErrNotExist
  | ErrNoReferencedRow
  | ErrRowIsReferenced
  | ErrIndexOutBound int
  | ErrUnknownColumn string
  | ErrCascadeSQL FKCascadeType
  | ErrExternal string
  | GoPanic

definition IsErrNotFound :: "error \<Rightarrow> bool" where
  "IsErrNotFound err = (err = ErrNotExist)"

text \<open>
  \<^verbatim>\<open>types.Datum\<close>: a kind and its payload. Floating-point and decimal payloads are
  kept as their decimal text (floating point is not modelled); \<open>KindOther\<close> covers the
  remaining kinds (time, duration, enum, ...) by their text.
\<close>

datatype datum =
    KindNull
  | KindInt64 int
  | KindUint64 nat
  | KindFloat32 string
  | KindFloat64 string
  | KindString string
  | KindBytes string
  | KindMysqlDecimal string
  | KindOther string

fun IsNull :: "datum \<Rightarrow> bool" where
  "IsNull KindNull = True"
| "IsNull _ = False"

text \<open>\<^verbatim>\<open>model.CIStr\<close>: a name as written (\<^verbatim>\<open>O\<close>, here \<open>Orig\<close>) and lower-cased (\<open>L\<close>).\<close>

record CIStr =
  Orig :: string
  L :: string

record FKInfo =
  Cols :: "CIStr list"

record ReferredFKInfo =
  ReferredCols :: "CIStr list"
  ChildSchema :: CIStr

record TableInfo =
  Name :: CIStr
  IsCommonHandle :: bool

datatype Handle = IntHandle int | CommonHandle bytes

text \<open>
  The codec functions the file calls (\<^verbatim>\<open>codec.EncodeKey\<close>,
  \<^verbatim>\<open>kv.NewCommonHandle\<close>, \<^verbatim>\<open>tablecodec.EncodeRecordKey\<close>,
  \<^verbatim>\<open>tablecodec.DecodeIndexHandle\<close>, \<^verbatim>\<open>Datum.GetInt64\<close>) live outside this
  file; they are parameters of the model.
\<close>

record Codec =
  EncodeKey :: "datum list \<Rightarrow> error + bytes"
  NewCommonHandle :: "bytes \<Rightarrow> error + Handle"
  EncodeRecordKey :: "key \<Rightarrow> Handle \<Rightarrow> key"
  DecodeIndexHandle :: "key \<Rightarrow> bytes \<Rightarrow> nat \<Rightarrow> error + Handle"
  GetInt64 :: "datum \<Rightarrow> int"

text \<open>\<^verbatim>\<open>table.Index\<close> and \<^verbatim>\<open>table.Table\<close>, as far as the file uses them.\<close>

record Index =
  Primary :: bool
  Columns :: "CIStr list"
  GenIndexKey :: "datum list \<Rightarrow> error + (key \<times> bool)"

record Table =
  Meta :: TableInfo
  RecordPrefix :: key

subsection \<open>The value helper\<close>

record fkValueHelper =
  colsOffsets :: "int list"
  fkValuesSet :: "string set"

fun fetchFKValues_loop :: "int list \<Rightarrow> datum list \<Rightarrow> error + datum list" where
  "fetchFKValues_loop [] rw = Inr []"
| "fetchFKValues_loop (offset # rest) rw =
     (if offset \<ge> int (length rw) then Inl (ErrIndexOutBound offset)
      else if offset < 0 then Inl GoPanic
      else (case fetchFKValues_loop rest rw of
              Inl err \<Rightarrow> Inl err
            | Inr vals \<Rightarrow> Inr (rw ! nat offset # vals)))"

definition fetchFKValues :: "'a fkValueHelper_scheme \<Rightarrow> datum list \<Rightarrow> error + datum list" where
  "fetchFKValues h rw = fetchFKValues_loop (colsOffsets h) rw"

fun hasNullValue :: "datum list \<Rightarrow> bool" where
  "hasNullValue [] = False"
| "hasNullValue (val # vals) = (if IsNull val then True else hasNullValue vals)"

text \<open>
  \<^verbatim>\<open>fetchFKValuesWithCheck\<close> returns the values (\<open>[]\<close> for \<^verbatim>\<open>nil\<close>) or the error,
  and the helper with its set of seen value tuples.
\<close>

definition fetchFKValuesWithCheck ::
  "Codec \<Rightarrow> 'a fkValueHelper_scheme \<Rightarrow> datum list \<Rightarrow> (error + datum list) \<times> 'a fkValueHelper_scheme" where
  "fetchFKValuesWithCheck cd h rw =
     (case fetchFKValues h rw of
        Inl err \<Rightarrow> (Inl err, h)
      | Inr vals \<Rightarrow>
          if hasNullValue vals then (Inr [], h)
          else (case EncodeKey cd vals of
                  Inl err \<Rightarrow> (Inl err, h)
                | Inr keyBuf \<Rightarrow>
                    if keyBuf \<in> fkValuesSet h then (Inr [], h)
                    else (Inr vals, h\<lparr>fkValuesSet := insert keyBuf (fkValuesSet h)\<rparr>)))"

subsection \<open>The check engine: building keys\<close>

text \<open>
  \<^verbatim>\<open>FKCheckExec\<close> embeds \<^verbatim>\<open>*plannercore.FKCheck\<close> and \<^verbatim>\<open>*fkValueHelper\<close>; the record
  extends the helper and carries the fields of \<^verbatim>\<open>FKCheck\<close> the file reads. A nil
  \<^verbatim>\<open>FK\<close>, \<^verbatim>\<open>ReferredFK\<close>, \<^verbatim>\<open>Idx\<close> or \<^verbatim>\<open>checkRowsCache\<close> is \<open>None\<close>.
\<close>

record FKCheckExec = fkValueHelper +
  FK :: "FKInfo option"
  ReferredFK :: "ReferredFKInfo option"
  Tbl :: Table
  Idx :: "Index option"
  IdxIsPrimaryKey :: bool
  IdxIsExclusive :: bool
  CheckExist :: bool
  FailedErr :: error
  toBeCheckedKeys :: "key list"
  toBeCheckedPrefixKeys :: "key list"
  toBeLockedKeys :: "key list"
  checkRowsCache :: "(key \<rightharpoonup> bool) option"

definition buildHandleFromFKValues :: "Codec \<Rightarrow> FKCheckExec \<Rightarrow> datum list \<Rightarrow> error + Handle" where
  "buildHandleFromFKValues cd fkc vals =
     (if length vals = 1 \<and> Idx fkc = None then Inr (IntHandle (GetInt64 cd (vals ! 0)))
      else (case EncodeKey cd vals of
              Inl err \<Rightarrow> Inl err
            | Inr handleBytes \<Rightarrow> NewCommonHandle cd handleBytes))"

definition buildCheckKeyFromFKValue ::
  "Codec \<Rightarrow> FKCheckExec \<Rightarrow> datum list \<Rightarrow> error + (key \<times> bool)" where
  "buildCheckKeyFromFKValue cd fkc vals =
     (if IdxIsPrimaryKey fkc then
        (case buildHandleFromFKValues cd fkc vals of
           Inl err \<Rightarrow> Inl err
         | Inr handleKey \<Rightarrow>
             (let key = EncodeRecordKey cd (RecordPrefix (Tbl fkc)) handleKey
              in if IdxIsExclusive fkc then Inr (key, False) else Inr (key, True)))
      else
        (case Idx fkc of
           None \<Rightarrow> Inl GoPanic
         | Some idx \<Rightarrow>
             (case GenIndexKey idx vals of
                Inl err \<Rightarrow> Inl err
              | Inr (key, isDistinct) \<Rightarrow>
                  if isDistinct \<and> IdxIsExclusive fkc then Inr (key, False) else Inr (key, True))))"

definition addRowNeedToCheck ::
  "Codec \<Rightarrow> FKCheckExec \<Rightarrow> datum list \<Rightarrow> error option \<times> FKCheckExec" where
  "addRowNeedToCheck cd fkc rw =
     (case fetchFKValuesWithCheck cd fkc rw of
        (Inl err, fkc1) \<Rightarrow> (Some err, fkc1)
      | (Inr vals, fkc1) \<Rightarrow>
          if length vals = 0 then (None, fkc1)
          else (case buildCheckKeyFromFKValue cd fkc1 vals of
                  Inl err \<Rightarrow> (Some err, fkc1)
                | Inr (key, isPrefix) \<Rightarrow>
                    if isPrefix
                    then (None, fkc1\<lparr>toBeCheckedPrefixKeys := toBeCheckedPrefixKeys fkc1 @ [key]\<rparr>)
                    else (None, fkc1\<lparr>toBeCheckedKeys := toBeCheckedKeys fkc1 @ [key]\<rparr>)))"

definition insertRowNeedToCheck ::
  "Codec \<Rightarrow> FKCheckExec \<Rightarrow> datum list \<Rightarrow> error option \<times> FKCheckExec" where
  "insertRowNeedToCheck cd fkc rw = addRowNeedToCheck cd fkc rw"

definition updateRowNeedToCheck ::
  "Codec \<Rightarrow> FKCheckExec \<Rightarrow> datum list \<Rightarrow> datum list \<Rightarrow> error option \<times> FKCheckExec" where
  "updateRowNeedToCheck cd fkc oldRow newRow =
     (if FK fkc \<noteq> None then addRowNeedToCheck cd fkc newRow
      else if ReferredFK fkc \<noteq> None then addRowNeedToCheck cd fkc oldRow
      else (None, fkc))"

definition deleteRowNeedToCheck ::
  "Codec \<Rightarrow> FKCheckExec \<Rightarrow> datum list \<Rightarrow> error option \<times> FKCheckExec" where
  "deleteRowNeedToCheck cd fkc rw = addRowNeedToCheck cd fkc rw"

subsection \<open>The transaction\<close>

text \<open>
  A scan iterator (\<^verbatim>\<open>kv.Iterator\<close>): \<open>IterEnd\<close> is an iterator whose \<^verbatim>\<open>Valid()\<close> is
  false; \<open>IterAt k' v e rest\<close> is valid at the entry \<open>(k', v)\<close>, and its \<^verbatim>\<open>Next()\<close>
  returns \<open>e\<close> and leaves the iterator \<open>rest\<close>.
\<close>

datatype kv_iter = IterEnd | IterAt key bytes "error option" kv_iter

datatype access =
    AccGet key
  | AccBatchGet "key list"
  | AccMemIter key
  | AccSnapIter key

text \<open>
  \<^verbatim>\<open>kv.Transaction\<close> is an interface implemented outside this file; the model takes its
  operations as parameters. \<open>MemIter p\<close> is \<^verbatim>\<open>GetMemBuffer().Iter(p, p.PrefixNext())\<close>
  and \<open>SnapIter p\<close> is \<^verbatim>\<open>GetSnapshot().Iter(p, p.PrefixNext())\<close>. \<open>accessLog\<close> records
  every call the engine makes, in order. The scan-batch-size option that the file sets
  on the snapshot around a prefix scan is a fetch-size hint and is left out.
\<close>

record Transaction =
  Get :: "key \<Rightarrow> error + bytes"
  BatchGet :: "key list \<Rightarrow> error option"
  MemIter :: "key \<Rightarrow> error + kv_iter"
  SnapIter :: "key \<Rightarrow> error + kv_iter"
  accessLog :: "access list"

definition txnGet :: "Transaction \<Rightarrow> key \<Rightarrow> (error + bytes) \<times> Transaction" where
  "txnGet txn key = (Get txn key, txn\<lparr>accessLog := accessLog txn @ [AccGet key]\<rparr>)"

definition txnBatchGet :: "Transaction \<Rightarrow> key list \<Rightarrow> error option \<times> Transaction" where
  "txnBatchGet txn keys = (BatchGet txn keys, txn\<lparr>accessLog := accessLog txn @ [AccBatchGet keys]\<rparr>)"

definition txnMemIter :: "Transaction \<Rightarrow> key \<Rightarrow> (error + kv_iter) \<times> Transaction" where
  "txnMemIter txn key = (MemIter txn key, txn\<lparr>accessLog := accessLog txn @ [AccMemIter key]\<rparr>)"

definition txnSnapIter :: "Transaction \<Rightarrow> key \<Rightarrow> (error + kv_iter) \<times> Transaction" where
  "txnSnapIter txn key = (SnapIter txn key, txn\<lparr>accessLog := accessLog txn @ [AccSnapIter key]\<rparr>)"

subsection \<open>The check engine: point keys\<close>

definition prefetchKeys :: "Transaction \<Rightarrow> key list \<Rightarrow> error option \<times> Transaction" where
  "prefetchKeys txn keys = txnBatchGet txn keys"

definition checkKeyExist ::
  "FKCheckExec \<Rightarrow> Transaction \<Rightarrow> key \<Rightarrow> error option \<times> FKCheckExec \<times> Transaction" where
  "checkKeyExist fkc txn key =
     (case txnGet txn key of
        (Inr _, txn1) \<Rightarrow> (None, fkc\<lparr>toBeLockedKeys := toBeLockedKeys fkc @ [key]\<rparr>, txn1)
      | (Inl err, txn1) \<Rightarrow>
          if IsErrNotFound err then (Some (FailedErr fkc), fkc, txn1)
          else (Some err, fkc, txn1))"

definition checkKeyNotExist ::
  "FKCheckExec \<Rightarrow> Transaction \<Rightarrow> key \<Rightarrow> error option \<times> FKCheckExec \<times> Transaction" where
  "checkKeyNotExist fkc txn key =
     (case txnGet txn key of
        (Inr _, txn1) \<Rightarrow> (Some (FailedErr fkc), fkc, txn1)
      | (Inl err, txn1) \<Rightarrow>
          if IsErrNotFound err then (None, fkc, txn1)
          else (Some err, fkc, txn1))"

definition checkKey ::
  "FKCheckExec \<Rightarrow> Transaction \<Rightarrow> key \<Rightarrow> error option \<times> FKCheckExec \<times> Transaction" where
  "checkKey fkc txn key =
     (if CheckExist fkc then checkKeyExist fkc txn key else checkKeyNotExist fkc txn key)"

fun checkKeys_loop ::
  "FKCheckExec \<Rightarrow> Transaction \<Rightarrow> key list \<Rightarrow> error option \<times> FKCheckExec \<times> Transaction" where
  "checkKeys_loop fkc txn [] = (None, fkc, txn)"
| "checkKeys_loop fkc txn (key # keys) =
     (case checkKey fkc txn key of
        (Some err, fkc1, txn1) \<Rightarrow> (Some err, fkc1, txn1)
      | (None, fkc1, txn1) \<Rightarrow> checkKeys_loop fkc1 txn1 keys)"

definition checkKeys ::
  "FKCheckExec \<Rightarrow> Transaction \<Rightarrow> error option \<times> FKCheckExec \<times> Transaction" where
  "checkKeys fkc txn =
     (if length (toBeCheckedKeys fkc) = 0 then (None, fkc, txn)
      else (case prefetchKeys txn (toBeCheckedKeys fkc) of
              (Some err, txn1) \<Rightarrow> (Some err, fkc, txn1)
            | (None, txn1) \<Rightarrow> checkKeys_loop fkc txn1 (toBeCheckedKeys fkc)))"

subsection \<open>The check engine: prefix keys and the merge-scan\<close>

text \<open>
  The two loops of \<^verbatim>\<open>getIndexKeyValueInTable\<close>. Both have the shape
  \<^verbatim>\<open>for ; it.Valid(); err = it.Next() { if err != nil { return } ... }\<close>: the error
  of the last \<^verbatim>\<open>Next()\<close> is looked at only when the iterator is still valid. The
  first loop either returns from the function or falls through with the set of keys
  deleted in the write buffer.
\<close>

datatype mem_scan = Returned "error + key \<times> bytes" | FellThrough "string set"

fun memIter_loop :: "key \<Rightarrow> error option \<Rightarrow> kv_iter \<Rightarrow> string set \<Rightarrow> mem_scan" where
  "memIter_loop key err IterEnd deletedKeys = FellThrough deletedKeys"
| "memIter_loop key err (IterAt k' v nextErr rest) deletedKeys =
     (case err of
        Some e \<Rightarrow> Returned (Inl e)
      | None \<Rightarrow>
          if \<not> prefix key k' then FellThrough deletedKeys
          else if length v > 0 then Returned (Inr (k', v))
          else memIter_loop key nextErr rest (insert k' deletedKeys))"

fun snapIter_loop :: "key \<Rightarrow> error option \<Rightarrow> kv_iter \<Rightarrow> string set \<Rightarrow> error + key \<times> bytes" where
  "snapIter_loop key err IterEnd deletedKeys = Inr ([], [])"
| "snapIter_loop key err (IterAt k' v nextErr rest) deletedKeys =
     (case err of
        Some e \<Rightarrow> Inl e
      | None \<Rightarrow>
          if \<not> prefix key k' then Inr ([], [])
          else if k' \<notin> deletedKeys then Inr (k', v)
          else snapIter_loop key nextErr rest deletedKeys)"

text \<open>The context \<open>ctx\<close> is \<open>Some e\<close> when it is done, with \<open>e\<close> its \<^verbatim>\<open>ctx.Err()\<close>.\<close>

definition getIndexKeyValueInTable ::
  "error option \<Rightarrow> Transaction \<Rightarrow> key \<Rightarrow> (error + key \<times> bytes) \<times> Transaction" where
  "getIndexKeyValueInTable ctx txn key =
     (case ctx of
        Some e \<Rightarrow> (Inl e, txn)
      | None \<Rightarrow>
          (case txnMemIter txn key of
             (Inl err, txn1) \<Rightarrow> (Inl err, txn1)
           | (Inr memIter, txn1) \<Rightarrow>
               (case memIter_loop key None memIter {} of
                  Returned r \<Rightarrow> (r, txn1)
                | FellThrough deletedKeys \<Rightarrow>
                    (case txnSnapIter txn1 key of
                       (Inl err, txn2) \<Rightarrow> (Inl err, txn2)
                     | (Inr it, txn2) \<Rightarrow> (snapIter_loop key None it deletedKeys, txn2)))))"

definition checkPrefixKeyExist ::
  "Codec \<Rightarrow> FKCheckExec \<Rightarrow> key \<Rightarrow> bytes \<Rightarrow> error option \<times> FKCheckExec" where
  "checkPrefixKeyExist cd fkc key val =
     (let exist = length val > 0 in
      if \<not> exist then (Some (FailedErr fkc), fkc)
      else if (case Idx fkc of None \<Rightarrow> False
               | Some idx \<Rightarrow> Primary idx \<and> IsCommonHandle (Meta (Tbl fkc)))
      then (None, fkc\<lparr>toBeLockedKeys := toBeLockedKeys fkc @ [key]\<rparr>)
      else (case Idx fkc of
              None \<Rightarrow> (Some GoPanic, fkc)
            | Some idx \<Rightarrow>
                (case DecodeIndexHandle cd key val (length (Columns idx)) of
                   Inl err \<Rightarrow> (Some err, fkc)
                 | Inr handle \<Rightarrow>
                     (let handleKey = EncodeRecordKey cd (RecordPrefix (Tbl fkc)) handle
                      in (None, fkc\<lparr>toBeLockedKeys := toBeLockedKeys fkc @ [handleKey]\<rparr>)))))"

definition checkPrefixKey ::
  "error option \<Rightarrow> Codec \<Rightarrow> FKCheckExec \<Rightarrow> Transaction \<Rightarrow> key
     \<Rightarrow> error option \<times> FKCheckExec \<times> Transaction" where
  "checkPrefixKey ctx cd fkc txn key =
     (case getIndexKeyValueInTable ctx txn key of
        (Inl err, txn1) \<Rightarrow> (Some err, fkc, txn1)
      | (Inr (k', val), txn1) \<Rightarrow>
          if CheckExist fkc then
            (case checkPrefixKeyExist cd fkc k' val of (res, fkc1) \<Rightarrow> (res, fkc1, txn1))
          else if length val > 0 then (Some (FailedErr fkc), fkc, txn1)
          else (None, fkc, txn1))"

fun checkIndexKeys_loop ::
  "error option \<Rightarrow> Codec \<Rightarrow> FKCheckExec \<Rightarrow> Transaction \<Rightarrow> key list
     \<Rightarrow> error option \<times> FKCheckExec \<times> Transaction" where
  "checkIndexKeys_loop ctx cd fkc txn [] = (None, fkc, txn)"
| "checkIndexKeys_loop ctx cd fkc txn (key # keys) =
     (case checkPrefixKey ctx cd fkc txn key of
        (Some err, fkc1, txn1) \<Rightarrow> (Some err, fkc1, txn1)
      | (None, fkc1, txn1) \<Rightarrow> checkIndexKeys_loop ctx cd fkc1 txn1 keys)"

definition checkIndexKeys ::
  "error option \<Rightarrow> Codec \<Rightarrow> FKCheckExec \<Rightarrow> Transaction
     \<Rightarrow> error option \<times> FKCheckExec \<times> Transaction" where
  "checkIndexKeys ctx cd fkc txn =
     (if length (toBeCheckedPrefixKeys fkc) = 0 then (None, fkc, txn)
      else checkIndexKeys_loop ctx cd fkc txn (toBeCheckedPrefixKeys fkc))"

subsection \<open>The check engine: resolving and locking\<close>

text \<open>
  The session, as far as \<^verbatim>\<open>doCheck\<close> uses it: \<open>Txn\<close> is the result of
  \<^verbatim>\<open>fkc.ctx.Txn(false)\<close>, \<open>newLockCtx\<close> the error of building the lock context for
  that many keys, \<open>doLockKeys\<close> the error of locking the keys together with the value
  it leaves in \<^verbatim>\<open>TxnCtx.ForUpdate\<close>.
\<close>

record Session =
  Txn :: "error + Transaction"
  newLockCtx :: "nat \<Rightarrow> error option"
  doLockKeys :: "key list \<Rightarrow> error option \<times> nat"
  ForUpdate :: nat

definition doCheck ::
  "error option \<Rightarrow> Codec \<Rightarrow> Session \<Rightarrow> FKCheckExec \<Rightarrow> error option \<times> FKCheckExec \<times> Session" where
  "doCheck ctx cd sess fkc =
     (case Txn sess of
        Inl err \<Rightarrow> (Some err, fkc, sess)
      | Inr txn \<Rightarrow>
          (case checkKeys fkc txn of
             (Some err, fkc1, txn1) \<Rightarrow> (Some err, fkc1, sess\<lparr>Txn := Inr txn1\<rparr>)
           | (None, fkc1, txn1) \<Rightarrow>
               (case checkIndexKeys ctx cd fkc1 txn1 of
                  (Some err, fkc2, txn2) \<Rightarrow> (Some err, fkc2, sess\<lparr>Txn := Inr txn2\<rparr>)
                | (None, fkc2, txn2) \<Rightarrow>
                    (let sess2 = sess\<lparr>Txn := Inr txn2\<rparr> in
                     if length (toBeLockedKeys fkc2) = 0 then (None, fkc2, sess2)
                     else (case newLockCtx sess2 (length (toBeLockedKeys fkc2)) of
                             Some err \<Rightarrow> (Some err, fkc2, sess2)
                           | None \<Rightarrow>
                               (let forUpdate = ForUpdate sess2;
                                    (err, fu) = doLockKeys sess2 (toBeLockedKeys fkc2);
                                    sess3 = sess2\<lparr>ForUpdate := fu\<rparr>
                                in (err, fkc2, sess3\<lparr>ForUpdate := forUpdate\<rparr>)))))))"

subsection \<open>The tolerant batch path\<close>

record toBeCheckedRow =
  row :: "datum list"
  ignored :: bool

record StatementContext =
  warnings :: "error list"

definition AppendWarning :: "StatementContext \<Rightarrow> error \<Rightarrow> StatementContext" where
  "AppendWarning sc warn = sc\<lparr>warnings := warnings sc @ [warn]\<rparr>"

text \<open>
  The first loop of \<^verbatim>\<open>checkRows\<close>: one \<^verbatim>\<open>*fkCheckKey\<close> per row (\<open>None\<close> for nil; a
  key is the pair of \<^verbatim>\<open>k\<close> and \<^verbatim>\<open>isPrefix\<close>), and the point keys to prefetch.
\<close>

fun checkRows_buildKeys ::
  "Codec \<Rightarrow> FKCheckExec \<Rightarrow> toBeCheckedRow list \<Rightarrow> error + ((key \<times> bool) option list \<times> key list)" where
  "checkRows_buildKeys cd fkc [] = Inr ([], [])"
| "checkRows_buildKeys cd fkc (r # rest) =
     (if ignored r then
        (case checkRows_buildKeys cd fkc rest of
           Inl err \<Rightarrow> Inl err
         | Inr (fkCheckKeys, prefetch) \<Rightarrow> Inr (None # fkCheckKeys, prefetch))
      else
        (case fetchFKValues fkc (row r) of
           Inl err \<Rightarrow> Inl err
         | Inr vals \<Rightarrow>
             if hasNullValue vals then
               (case checkRows_buildKeys cd fkc rest of
                  Inl err \<Rightarrow> Inl err
                | Inr (fkCheckKeys, prefetch) \<Rightarrow> Inr (None # fkCheckKeys, prefetch))
             else
               (case buildCheckKeyFromFKValue cd fkc vals of
                  Inl err \<Rightarrow> Inl err
                | Inr (key, isPrefix) \<Rightarrow>
                    (case checkRows_buildKeys cd fkc rest of
                       Inl err \<Rightarrow> Inl err
                     | Inr (fkCheckKeys, prefetch) \<Rightarrow>
                         Inr (Some (key, isPrefix) # fkCheckKeys,
                              if \<not> isPrefix then key # prefetch else prefetch)))))"

text \<open>
  The second loop of \<^verbatim>\<open>checkRows\<close>, over the rows and their keys. \<open>cache\<close> is the
  (non-nil) map \<^verbatim>\<open>fkc.checkRowsCache\<close>. The loop itself returns no error; a panic of a
  check unwinds it.
\<close>

fun checkRows_loop ::
  "error option \<Rightarrow> Codec \<Rightarrow> FKCheckExec \<Rightarrow> (key \<rightharpoonup> bool) \<Rightarrow> StatementContext \<Rightarrow> Transaction
     \<Rightarrow> toBeCheckedRow list \<Rightarrow> (key \<times> bool) option list
     \<Rightarrow> error option \<times> FKCheckExec \<times> (key \<rightharpoonup> bool) \<times> StatementContext \<times> Transaction
         \<times> toBeCheckedRow list" where
  "checkRows_loop ctx cd fkc cache sc txn rows [] = (None, fkc, cache, sc, txn, rows)"
| "checkRows_loop ctx cd fkc cache sc txn [] (ck # cks) = (None, fkc, cache, sc, txn, [])"
| "checkRows_loop ctx cd fkc cache sc txn (r # rows) (None # cks) =
     (case checkRows_loop ctx cd fkc cache sc txn rows cks of
        (res, fkc', cache', sc', txn', rows') \<Rightarrow> (res, fkc', cache', sc', txn', r # rows'))"
| "checkRows_loop ctx cd fkc cache sc txn (r # rows) (Some (key, isPrefix) # cks) =
     (case cache key of
        Some ignore \<Rightarrow>
          (let r1 = (if ignore then r\<lparr>ignored := True\<rparr> else r);
               sc1 = (if ignore then AppendWarning sc (FailedErr fkc) else sc)
           in case checkRows_loop ctx cd fkc cache sc1 txn rows cks of
                (res, fkc', cache', sc', txn', rows') \<Rightarrow> (res, fkc', cache', sc', txn', r1 # rows'))
      | None \<Rightarrow>
          (case (if isPrefix then checkPrefixKey ctx cd fkc txn key else checkKey fkc txn key) of
             (err, fkc1, txn1) \<Rightarrow>
               if err = Some GoPanic then (Some GoPanic, fkc1, cache, sc, txn1, r # rows)
               else
                 (let r1 = (if err \<noteq> None then r\<lparr>ignored := True\<rparr> else r);
                      sc1 = (if err \<noteq> None then AppendWarning sc (FailedErr fkc1) else sc);
                      cache1 = (if err \<noteq> None then cache(key \<mapsto> True) else cache);
                      cache2 = cache1(key \<mapsto> False)
                  in case checkRows_loop ctx cd fkc1 cache2 sc1 txn1 rows cks of
                       (res, fkc', cache', sc', txn', rows') \<Rightarrow>
                         (res, fkc', cache', sc', txn', r1 # rows'))))"

text \<open>
  \<^verbatim>\<open>checkRows\<close> has a value receiver: it works on a copy of the engine. The engine
  returned here is that copy as the function leaves it; the rows (a slice, changed in
  place), the statement context and the transaction are the caller's.
\<close>

definition checkRows ::
  "error option \<Rightarrow> Codec \<Rightarrow> FKCheckExec \<Rightarrow> StatementContext \<Rightarrow> Transaction \<Rightarrow> toBeCheckedRow list
     \<Rightarrow> error option \<times> FKCheckExec \<times> StatementContext \<times> Transaction \<times> toBeCheckedRow list" where
  "checkRows ctx cd fkc sc txn rows =
     (if length rows = 0 then (None, fkc, sc, txn, rows)
      else
        (let cache0 = (case checkRowsCache fkc of None \<Rightarrow> Map.empty | Some m \<Rightarrow> m);
             fkc0 = fkc\<lparr>checkRowsCache := Some cache0\<rparr>
         in case checkRows_buildKeys cd fkc0 rows of
              Inl err \<Rightarrow> (Some err, fkc0, sc, txn, rows)
            | Inr (fkCheckKeys, prefetch) \<Rightarrow>
                (case (if length prefetch > 0 then prefetchKeys txn prefetch else (None, txn)) of
                   (Some err, txn1) \<Rightarrow> (Some err, fkc0, sc, txn1, rows)
                 | (None, txn1) \<Rightarrow>
                     (case checkRows_loop ctx cd fkc0 cache0 sc txn1 rows fkCheckKeys of
                        (res, fkc1, cache1, sc1, txn2, rows1) \<Rightarrow>
                          (res, fkc1\<lparr>checkRowsCache := Some cache1\<rparr>, sc1, txn2, rows1)))))"

subsection \<open>The cascade engine\<close>

record FKCascadeExec = fkValueHelper +
  tp :: FKCascadeType
  referredFK :: ReferredFKInfo
  childTable :: TableInfo
  fk :: FKInfo
  fkValues :: "datum list list"

definition onDeleteRow ::
  "Codec \<Rightarrow> FKCascadeExec \<Rightarrow> datum list \<Rightarrow> error option \<times> FKCascadeExec" where
  "onDeleteRow cd fkc rw =
     (case fetchFKValuesWithCheck cd fkc rw of
        (Inl err, fkc1) \<Rightarrow> (Some err, fkc1)
      | (Inr vals, fkc1) \<Rightarrow>
          if length vals = 0 then (None, fkc1)
          else (None, fkc1\<lparr>fkValues := fkValues fkc1 @ [vals]\<rparr>))"

fun FormatUint :: "nat \<Rightarrow> string" where
  "FormatUint n =
     (if n < 10 then [''0123456789'' ! n]
      else FormatUint (n div 10) @ [''0123456789'' ! (n mod 10)])"

declare FormatUint.simps [simp del]

definition FormatInt :: "int \<Rightarrow> string" where
  "FormatInt i = (if i < 0 then ''-'' @ FormatUint (nat (- i)) else FormatUint (nat i))"

text \<open>
  Modelled from the spec: \<^verbatim>\<open>types.Datum.ToString\<close> is not in this file. Integers are
  rendered in decimal, as bare numeric literals; the other kinds render as the text they
  carry; NULL has no text.
\<close>

fun ToString :: "datum \<Rightarrow> error + string" where
  "ToString KindNull = Inl (ErrExternal ''cannot convert NULL to string'')"
| "ToString (KindInt64 i) = Inr (FormatInt i)"
| "ToString (KindUint64 n) = Inr (FormatUint n)"
| "ToString (KindFloat32 s) = Inr s"
| "ToString (KindFloat64 s) = Inr s"
| "ToString (KindString s) = Inr s"
| "ToString (KindBytes s) = Inr s"
| "ToString (KindMysqlDecimal s) = Inr s"
| "ToString (KindOther s) = Inr s"

fun isBareKind :: "datum \<Rightarrow> bool" where
  "isBareKind (KindInt64 _) = True"
| "isBareKind (KindUint64 _) = True"
| "isBareKind (KindFloat32 _) = True"
| "isBareKind (KindFloat64 _) = True"
| "isBareKind (KindMysqlDecimal _) = True"
| "isBareKind _ = False"

definition genFKValueString :: "datum \<Rightarrow> error + string" where
  "genFKValueString v =
     (case ToString v of
        Inl err \<Rightarrow> Inl err
      | Inr val \<Rightarrow> if isBareKind v then Inr val else Inr ([CHR 0x27] @ val @ [CHR 0x27]))"

text \<open>
  \<^verbatim>\<open>GenCascadeDeleteSQL\<close> writes into a buffer; each loop of it is a function from the
  buffer so far and the loop index to the buffer after the loop.
\<close>

fun writeCols :: "string \<Rightarrow> nat \<Rightarrow> CIStr list \<Rightarrow> string" where
  "writeCols buf i [] = buf"
| "writeCols buf i (col # cols) =
     (let buf1 = (if i > 0 then buf @ '', '' else buf)
      in writeCols (buf1 @ (''`'' @ L col @ ''`'')) (i + 1) cols)"

fun writeVals :: "string \<Rightarrow> nat \<Rightarrow> datum list \<Rightarrow> error + string" where
  "writeVals buf i [] = Inr buf"
| "writeVals buf i (v # vs) =
     (case genFKValueString v of
        Inl err \<Rightarrow> Inl err
      | Inr val \<Rightarrow>
          (let buf1 = (if i > 0 then buf @ '','' else buf)
           in writeVals (buf1 @ val) (i + 1) vs))"

fun writeTuples :: "string \<Rightarrow> nat \<Rightarrow> datum list list \<Rightarrow> error + string" where
  "writeTuples buf i [] = Inr buf"
| "writeTuples buf i (vs # rest) =
     (let buf1 = (if i > 0 then buf @ '', ('' else buf @ ''('')
      in case writeVals buf1 0 vs of
           Inl err \<Rightarrow> Inl err
         | Inr buf2 \<Rightarrow> writeTuples (buf2 @ '')'') (i + 1) rest)"

definition GenCascadeDeleteSQL ::
  "CIStr \<Rightarrow> CIStr \<Rightarrow> FKInfo \<Rightarrow> datum list list \<Rightarrow> error + string" where
  "GenCascadeDeleteSQL schema table fkInfo vals =
     (let buf0 = ''DELETE FROM `'' @ L schema @ ''`.`'' @ L table @ ''` WHERE ('';
          buf1 = writeCols buf0 0 (Cols fkInfo);
          buf2 = buf1 @ '') IN (''
      in case writeTuples buf2 0 vals of
           Inl err \<Rightarrow> Inl err
         | Inr buf3 \<Rightarrow> Inr (buf3 @ '')''))"

text \<open>
  The executor builder \<^verbatim>\<open>fkc.b\<close> and the statement compiler behind it, as parameters:
  \<open>ParseWithParams\<close> is \<open>None\<close> when the session context does not implement
  \<^verbatim>\<open>sqlexec.RestrictedSQLExecutor\<close>; \<open>Preprocess\<close> and \<open>Optimize\<close> are the planner's
  entry points (a nil plan is \<open>None\<close>); \<open>build\<close> gives the executor of \<^verbatim>\<open>b.build(p)\<close>
  and the \<^verbatim>\<open>b.err\<close> it leaves.
\<close>

record ('stmt, 'plan, 'exec) executorBuilder =
  ParseWithParams :: "(string \<Rightarrow> error + 'stmt) option"
  Preprocess :: "'stmt \<Rightarrow> error option"
  Optimize :: "'stmt \<Rightarrow> error + 'plan option"
  build :: "'plan \<Rightarrow> 'exec option \<times> error option"

definition buildFKCascadePlan ::
  "('stmt, 'plan, 'exec) executorBuilder \<Rightarrow> FKCascadeExec \<Rightarrow> error + 'plan option" where
  "buildFKCascadePlan bld fkc =
     (if length (fkValues fkc) = 0 then Inr None
      else
        (case (case tp fkc of
                 FKCascadeOnDelete \<Rightarrow>
                   GenCascadeDeleteSQL (ChildSchema (referredFK fkc)) (Name (childTable fkc))
                     (fk fkc) (fkValues fkc)
               | _ \<Rightarrow> Inr []) of
           Inl err \<Rightarrow> Inl err
         | Inr sqlStr \<Rightarrow>
             if sqlStr = [] then Inl (ErrCascadeSQL (tp fkc))
             else
               (case ParseWithParams bld of
                  None \<Rightarrow> Inr None
                | Some parse \<Rightarrow>
                    (case parse sqlStr of
                       Inl err \<Rightarrow> Inl err
                     | Inr stmtNode \<Rightarrow>
                         (case Preprocess bld stmtNode of
                            Some err \<Rightarrow> Inl err
                          | None \<Rightarrow> Optimize bld stmtNode)))))"

definition buildExecutor ::
  "('stmt, 'plan, 'exec) executorBuilder \<Rightarrow> FKCascadeExec \<Rightarrow> 'exec option \<times> error option" where
  "buildExecutor bld fkc =
     (case buildFKCascadePlan bld fkc of
        Inl err \<Rightarrow> (None, Some err)
      | Inr None \<Rightarrow> (None, None)
      | Inr (Some p) \<Rightarrow> build bld p)"

subsection \<open>A transaction over a write buffer and a snapshot\<close>

text \<open>
  Modelled from the spec: the transaction itself (\<^verbatim>\<open>kv.Transaction\<close>, its write buffer
  and its snapshot) is not in this file. \<open>mem\<close> is the write buffer and \<open>snap\<close> the
  committed snapshot, each as the list of its entries in iteration order; an entry of
  the write buffer with an empty value is a tombstone. \<open>Get\<close> reads the write buffer
  first and the snapshot otherwise, and reports an absent or tombstoned key as not
  found; the two range iterators run over the entries that share the prefix, in order,
  and never fail; \<open>BatchGet\<close> only warms a cache.
\<close>

fun iterOf :: "(key \<times> bytes) list \<Rightarrow> kv_iter" where
  "iterOf [] = IterEnd"
| "iterOf ((k', v) # rest) = IterAt k' v None (iterOf rest)"

definition unionGet :: "(key \<times> bytes) list \<Rightarrow> (key \<times> bytes) list \<Rightarrow> key \<Rightarrow> error + bytes" where
  "unionGet mem snap key =
     (case map_of mem key of
        Some v \<Rightarrow> if v = [] then Inl ErrNotExist else Inr v
      | None \<Rightarrow>
          (case map_of snap key of
             Some v \<Rightarrow> if v = [] then Inl ErrNotExist else Inr v
           | None \<Rightarrow> Inl ErrNotExist))"

definition prefixRange :: "key \<Rightarrow> (key \<times> bytes) list \<Rightarrow> (key \<times> bytes) list" where
  "prefixRange p entries = filter (\<lambda>(k', v). prefix p k') entries"

definition bufferedTxn ::
  "(key \<times> bytes) list \<Rightarrow> (key \<times> bytes) list \<Rightarrow> access list \<Rightarrow> Transaction" where
  "bufferedTxn mem snap lg =
     \<lparr>Get = unionGet mem snap,
      BatchGet = (\<lambda>keys. None),
      MemIter = (\<lambda>p. Inr (iterOf (prefixRange p mem))),
      SnapIter = (\<lambda>p. Inr (iterOf (prefixRange p snap))),
      accessLog = lg\<rparr>"

text \<open>
  The merged view in the words of the spec: the local writes and the snapshot, a local
  write overriding the snapshot's entry for the same key, tombstones removed.
\<close>

definition mergedView :: "(key \<times> bytes) list \<Rightarrow> (key \<times> bytes) list \<Rightarrow> (key \<times> bytes) list" where
  "mergedView mem snap =
     filter (\<lambda>(k', v). v \<noteq> []) (mem @ filter (\<lambda>(k', v). k' \<notin> fst ` set mem) snap)"

definition liveKey :: "(key \<times> bytes) list \<Rightarrow> (key \<times> bytes) list \<Rightarrow> key \<Rightarrow> bool" where
  "liveKey mem snap key = (key \<in> fst ` set (mergedView mem snap))"

definition livePrefix :: "(key \<times> bytes) list \<Rightarrow> (key \<times> bytes) list \<Rightarrow> key \<Rightarrow> bool" where
  "livePrefix mem snap p = (\<exists>k' \<in> fst ` set (mergedView mem snap). prefix p k')"

text \<open>A write buffer holds one entry per key; a snapshot holds no empty value.\<close>

definition wellFormed :: "(key \<times> bytes) list \<Rightarrow> (key \<times> bytes) list \<Rightarrow> bool" where
  "wellFormed mem snap = (distinct (map fst mem) \<and> list_all (\<lambda>(k', v). v \<noteq> []) snap)"

subsection \<open>Instances for the concrete runs\<close>

definition exCodec :: Codec where
  "exCodec =
     \<lparr>EncodeKey = (\<lambda>vals. Inr (concat (map (\<lambda>d. case ToString d of Inl _ \<Rightarrow> ''?'' | Inr s \<Rightarrow> s @ ''|'') vals))),
      NewCommonHandle = (\<lambda>b. Inr (CommonHandle b)),
      EncodeRecordKey = (\<lambda>p h. p @ ''_r'' @ (case h of IntHandle i \<Rightarrow> FormatInt i | CommonHandle b \<Rightarrow> b)),
      DecodeIndexHandle = (\<lambda>k' v n. Inr (CommonHandle v)),
      GetInt64 = (\<lambda>d. case d of KindInt64 i \<Rightarrow> i | _ \<Rightarrow> 0)\<rparr>"

definition ciStr :: "string \<Rightarrow> CIStr" where
  "ciStr s = \<lparr>Orig = s, L = s\<rparr>"

definition exTable :: Table where
  "exTable = \<lparr>Meta = \<lparr>Name = ciStr ''parent'', IsCommonHandle = False\<rparr>, RecordPrefix = ''t1''\<rparr>"

definition exIndex :: Index where
  "exIndex =
     \<lparr>Primary = False, Columns = [ciStr ''a''],
      GenIndexKey = (\<lambda>vals. case EncodeKey exCodec vals of Inl e \<Rightarrow> Inl e | Inr b \<Rightarrow> Inr (''t1_i1'' @ b, False))\<rparr>"

text \<open>An engine on an integer primary key of the parent: point keys, existence required.\<close>

definition exCheck :: FKCheckExec where
  "exCheck =
     \<lparr>colsOffsets = [0], fkValuesSet = {},
      FK = Some \<lparr>Cols = [ciStr ''a'']\<rparr>, ReferredFK = None, Tbl = exTable, Idx = None,
      IdxIsPrimaryKey = True, IdxIsExclusive = True, CheckExist = True,
      FailedErr = ErrNoReferencedRow,
      toBeCheckedKeys = [], toBeCheckedPrefixKeys = [], toBeLockedKeys = [],
      checkRowsCache = None\<rparr>"

text \<open>An engine on a non-unique index of the parent: prefix keys.\<close>

definition exIndexCheck :: FKCheckExec where
  "exIndexCheck = exCheck\<lparr>Idx := Some exIndex, IdxIsPrimaryKey := False, IdxIsExclusive := False\<rparr>"

text \<open>
  An engine on a clustered primary key \<open>(a, b)\<close> of the parent, for a foreign key that
  references only \<open>a\<close>: the matching key is the primary key and is not exclusive.
\<close>

definition exPrimaryPrefixCheck :: FKCheckExec where
  "exPrimaryPrefixCheck =
     exCheck\<lparr>Tbl := \<lparr>Meta = \<lparr>Name = ciStr ''parent'', IsCommonHandle = True\<rparr>, RecordPrefix = ''t1''\<rparr>,
              Idx := Some \<lparr>Primary = True, Columns = [ciStr ''a'', ciStr ''b''],
                          GenIndexKey = (\<lambda>vals. Inl (ErrExternal ''not used''))\<rparr>,
              IdxIsPrimaryKey := True, IdxIsExclusive := False\<rparr>"

definition exCascade :: FKCascadeExec where
  "exCascade =
     \<lparr>colsOffsets = [0], fkValuesSet = {},
      tp = FKCascadeOnDelete,
      referredFK = \<lparr>ReferredCols = [ciStr ''id''], ChildSchema = ciStr ''test''\<rparr>,
      childTable = \<lparr>Name = ciStr ''child'', IsCommonHandle = False\<rparr>,
      fk = \<lparr>Cols = [ciStr ''a'']\<rparr>,
      fkValues = [[KindInt64 1]]\<rparr>"

definition exBuilder :: "(string, string, string) executorBuilder" where
  "exBuilder =
     \<lparr>ParseWithParams = None,
      Preprocess = (\<lambda>stmt. None),
      Optimize = (\<lambda>stmt. Inr (Some stmt)),
      build = (\<lambda>p. (Some p, None))\<rparr>"

subsection \<open>The merge-scan and the locked keys, as the specification words them\<close>

text \<open>
  The result of the merge-scan in the words of the spec, over the entries \<open>ms\<close> that the
  write-buffer iterator yields and the entries \<open>ss\<close> that the snapshot iterator yields:
  each source is read while its keys share the prefix; the keys with an empty value in
  the local range form the skip-set; the first local entry with a non-empty value is the
  result if there is one, otherwise the first snapshot entry whose key is not in the
  skip-set, otherwise nothing (the empty key and value).
\<close>

definition mergeScan :: "key \<Rightarrow> (key \<times> bytes) list \<Rightarrow> (key \<times> bytes) list \<Rightarrow> key \<times> bytes" where
  "mergeScan p ms ss =
     (let localRange = takeWhile (\<lambda>(k', v). prefix p k') ms;
          snapRange = takeWhile (\<lambda>(k', v). prefix p k') ss;
          skipSet = fst ` set (filter (\<lambda>(k', v). v = []) localRange)
      in case find (\<lambda>(k', v). v \<noteq> []) localRange of
           Some kv \<Rightarrow> kv
         | None \<Rightarrow>
             (case find (\<lambda>(k', v). k' \<notin> skipSet) snapRange of
                Some kv \<Rightarrow> kv
              | None \<Rightarrow> ([], [])))"

text \<open>
  The cascade statement in the words of the spec:
  \<^verbatim>\<open>DELETE FROM <schema>.<table> WHERE (<col_1>, ..., <col_n>) IN ((v_1...), (v_2...), ...)\<close>
  with the names lower-cased and quoted with backticks, over the rendered values of the
  buffered tuples.
\<close>

fun joinWith :: "string \<Rightarrow> string list \<Rightarrow> string" where
  "joinWith sep [] = []"
| "joinWith sep [x] = x"
| "joinWith sep (x # y # zs) = x @ sep @ joinWith sep (y # zs)"

definition cascadeDeleteText :: "CIStr \<Rightarrow> CIStr \<Rightarrow> CIStr list \<Rightarrow> string list list \<Rightarrow> string" where
  "cascadeDeleteText schema table cols tuples =
     ''DELETE FROM `'' @ L schema @ ''`.`'' @ L table @ ''` WHERE (''
       @ joinWith '', '' (map (\<lambda>col. ''`'' @ L col @ ''`'') cols)
       @ '') IN (''
       @ joinWith '', '' (map (\<lambda>texts. ''('' @ joinWith '','' texts @ '')'') tuples)
       @ '')''"

text \<open>
  The key that is locked for a matched live entry \<open>(k', v)\<close> of a prefix check: the
  entry's own key when the index is the primary key of a table with a common handle,
  and otherwise the record key of the handle decoded from the entry (none when the
  decoding fails).
\<close>

definition lockKeysOf :: "Codec \<Rightarrow> FKCheckExec \<Rightarrow> key \<Rightarrow> bytes \<Rightarrow> key set" where
  "lockKeysOf cd fkc k' v =
     (if (case Idx fkc of None \<Rightarrow> False
          | Some idx \<Rightarrow> Primary idx \<and> IsCommonHandle (Meta (Tbl fkc)))
      then {k'}
      else (case Idx fkc of
              None \<Rightarrow> {}
            | Some idx \<Rightarrow>
                (case DecodeIndexHandle cd k' v (length (Columns idx)) of
                   Inl err \<Rightarrow> {}
                 | Inr handle \<Rightarrow> {EncodeRecordKey cd (RecordPrefix (Tbl fkc)) handle})))"

definition prefixLockKeys ::
  "Codec \<Rightarrow> FKCheckExec \<Rightarrow> (key \<times> bytes) list \<Rightarrow> (key \<times> bytes) list \<Rightarrow> key list \<Rightarrow> key set" where
  "prefixLockKeys cd fkc mem snap ps =
     {lk. \<exists>p \<in> set ps. \<exists>(k', v) \<in> set (mergedView mem snap).
            prefix p k' \<and> lk \<in> lockKeysOf cd fkc k' v}"

text \<open>
  The keys confirmed to exist for an engine: the queued point keys that are live in the
  merged view, and the keys derived from the live entries under a queued prefix.
\<close>

definition confirmedKeys ::
  "Codec \<Rightarrow> FKCheckExec \<Rightarrow> (key \<times> bytes) list \<Rightarrow> (key \<times> bytes) list \<Rightarrow> key set" where
  "confirmedKeys cd fkc mem snap =
     {key \<in> set (toBeCheckedKeys fkc). liveKey mem snap key}
     \<union> prefixLockKeys cd fkc mem snap (toBeCheckedPrefixKeys fkc)"

text \<open>
  \<open>locksGrow fkc fkc' S\<close>: the engine \<open>fkc'\<close> is \<open>fkc\<close> with keys of \<open>S\<close> appended to
  its to-be-locked list and nothing else changed, and with nothing appended when the
  engine checks for non-existence.
\<close>

definition locksGrow :: "FKCheckExec \<Rightarrow> FKCheckExec \<Rightarrow> key set \<Rightarrow> bool" where
  "locksGrow fkc fkc' S =
     (\<exists>ls. fkc' = fkc\<lparr>toBeLockedKeys := toBeLockedKeys fkc @ ls\<rparr> \<and> set ls \<subseteq> S
           \<and> (\<not> CheckExist fkc \<longrightarrow> ls = []))"

text \<open>
  A write buffer and a snapshot for the concrete runs: the parent row 7 and its index
  entry are committed and deleted in this transaction; the parent row 8 is committed.
\<close>

definition exMem :: "(key \<times> bytes) list" where
  "exMem = [(''t1_i11|7'', []), (''t1_r7'', [])]"

definition exSnap :: "(key \<times> bytes) list" where
  "exSnap = [(''t1_i11|7'', ''7''), (''t1_i12|8'', ''8''), (''t1_r7'', ''row7''), (''t1_r8'', ''row8'')]"

definition exSession :: Session where
  "exSession =
     \<lparr>Txn = Inr (bufferedTxn exMem exSnap []),
      newLockCtx = (\<lambda>n. None),
      doLockKeys = (\<lambda>keys. (None, 1)),
      ForUpdate = 0\<rparr>"

text \<open>Rows and a failing transaction for the concrete runs.\<close>

definition exRow :: "int \<Rightarrow> toBeCheckedRow" where
  "exRow i = \<lparr>row = [KindInt64 i], ignored = False\<rparr>"

definition nullRow :: toBeCheckedRow where
  "nullRow = \<lparr>row = [KindNull], ignored = False\<rparr>"

definition scanFaultTxn :: Transaction where
  "scanFaultTxn =
     \<lparr>Get = (\<lambda>key. Inl ErrNotExist),
      BatchGet = (\<lambda>keys. None),
      MemIter = (\<lambda>p. Inr (IterAt (p @ ''7'') [] None IterEnd)),
      SnapIter = (\<lambda>p. Inr (IterAt (p @ ''7'') ''7'' (Some (ErrExternal ''region unavailable'')) IterEnd)),
      accessLog = []\<rparr>"

definition faultyTxn :: Transaction where
  "faultyTxn =
     \<lparr>Get = (\<lambda>key. Inl (ErrExternal ''region unavailable'')),
      BatchGet = (\<lambda>keys. None),
      MemIter = (\<lambda>p. Inr IterEnd),
      SnapIter = (\<lambda>p. Inl (ErrExternal ''region unavailable'')),
      accessLog = []\<rparr>"

section \<open>Properties\<close>

subsection \<open>The cascade statement\<close>

lemma GenCascadeDeleteSQL_nonempty:
  "GenCascadeDeleteSQL schema table fkInfo vals = Inr s \<Longrightarrow> s \<noteq> []"
  by (auto simp: GenCascadeDeleteSQL_def Let_def split: sum.splits)

lemma joinWith_Cons: "joinWith sep (x # xs) = x @ concat (map (\<lambda>y. sep @ y) xs)"
  by (induction xs arbitrary: x) auto

lemma writeCols_pos:
  "i > 0 \<Longrightarrow> writeCols buf i cols = buf @ concat (map (\<lambda>col. '', '' @ (''`'' @ L col @ ''`'')) cols)"
  by (induction cols arbitrary: buf i) (auto simp: Let_def)

lemma writeCols_zero:
  "writeCols buf 0 cols = buf @ joinWith '', '' (map (\<lambda>col. ''`'' @ L col @ ''`'') cols)"
  by (cases cols) (simp_all add: joinWith_Cons writeCols_pos Let_def comp_def)

lemma writeVals_pos:
  "i > 0 \<Longrightarrow> map genFKValueString vs = map Inr texts \<Longrightarrow>
   writeVals buf i vs = Inr (buf @ concat (map (\<lambda>t. '','' @ t) texts))"
  by (induction vs arbitrary: buf i texts) (auto simp: Let_def)

lemma writeVals_zero:
  "map genFKValueString vs = map Inr texts \<Longrightarrow>
   writeVals buf 0 vs = Inr (buf @ joinWith '','' texts)"
  by (cases vs) (auto simp: joinWith_Cons writeVals_pos Let_def)

lemma writeTuples_pos:
  "i > 0 \<Longrightarrow> map (map genFKValueString) vals = map (map Inr) tuples \<Longrightarrow>
   writeTuples buf i vals
     = Inr (buf @ concat (map (\<lambda>texts. '', '' @ (''('' @ joinWith '','' texts @ '')'')) tuples))"
proof (induction vals arbitrary: buf i tuples)
  case Nil
  then show ?case by simp
next
  case (Cons vs vals)
  then obtain texts rest where t: "tuples = texts # rest"
    and a: "map genFKValueString vs = map Inr texts"
    and b: "map (map genFKValueString) vals = map (map Inr) rest"
    by (cases tuples) auto
  from Cons.prems(1) a have "writeVals (buf @ '', ('') 0 vs = Inr ((buf @ '', ('') @ joinWith '','' texts)"
    by (simp add: writeVals_zero)
  with Cons.IH [OF _ b, of "i + 1"] Cons.prems(1) t show ?case
    by (simp add: Let_def)
qed

lemma writeTuples_zero:
  assumes "map (map genFKValueString) vals = map (map Inr) tuples"
  shows "writeTuples buf 0 vals
     = Inr (buf @ joinWith '', '' (map (\<lambda>texts. ''('' @ joinWith '','' texts @ '')'') tuples))"
proof (cases vals)
  case Nil
  with assms show ?thesis by simp
next
  case (Cons vs rest')
  with assms obtain texts rest where t: "tuples = texts # rest"
    and a: "map genFKValueString vs = map Inr texts"
    and b: "map (map genFKValueString) rest' = map (map Inr) rest"
    by (cases tuples) auto
  have "writeVals (buf @ ''('') 0 vs = Inr ((buf @ ''('') @ joinWith '','' texts)"
    using a by (rule writeVals_zero)
  with writeTuples_pos [OF _ b, of 1] Cons t show ?thesis
    by (simp add: Let_def joinWith_Cons comp_def)
qed

lemma GenCascadeDeleteSQL_form:
  assumes "map (map genFKValueString) vals = map (map Inr) tuples"
  shows "GenCascadeDeleteSQL schema table fkInfo vals
     = Inr (cascadeDeleteText schema table (Cols fkInfo) tuples)"
  using writeTuples_zero [OF assms]
  by (simp add: GenCascadeDeleteSQL_def cascadeDeleteText_def writeCols_zero Let_def)

text \<open>
  C4 (as amended). \<^verbatim>\<open>GenCascadeDeleteSQL\<close> quotes the lower-cased schema, table and
  column names with backticks, renders integer, float and decimal values bare and every
  other kind between single quotes, and wraps every value tuple in its own parentheses
  inside the parentheses of the \<^verbatim>\<open>IN\<close> list. For the columns \<open>(a, b)\<close> and the values
  \<open>[(1,2), (3,4)]\<close> on \<open>test.child\<close> the text is the one the claim gives; for the single
  text column \<open>name\<close> and the single value \<open>x\<close> the list is \<^verbatim>\<open>IN (('x'))\<close>.
\<close>

theorem GenCascadeDeleteSQL_text:
  "(map (map genFKValueString) vals = map (map Inr) tuples \<longrightarrow>
      GenCascadeDeleteSQL schema table fkInfo vals
        = Inr (cascadeDeleteText schema table (Cols fkInfo) tuples))
   \<and> GenCascadeDeleteSQL (ciStr ''test'') (ciStr ''child'') \<lparr>Cols = [ciStr ''a'', ciStr ''b'']\<rparr>
       [[KindInt64 1, KindInt64 2], [KindInt64 3, KindInt64 4]]
     = Inr ''DELETE FROM `test`.`child` WHERE (`a`, `b`) IN ((1,2), (3,4))''
   \<and> GenCascadeDeleteSQL (ciStr ''test'') (ciStr ''child'') \<lparr>Cols = [ciStr ''name'']\<rparr>
       [[KindString ''x'']]
     = Inr (''DELETE FROM `test`.`child` WHERE (`name`) IN (('' @ [CHR 0x27] @ ''x'' @ [CHR 0x27] @ ''))'')
   \<and> genFKValueString (KindInt64 i) = Inr (FormatInt i)
   \<and> genFKValueString (KindUint64 n) = Inr (FormatUint n)
   \<and> genFKValueString (KindFloat32 s) = Inr s
   \<and> genFKValueString (KindFloat64 s) = Inr s
   \<and> genFKValueString (KindMysqlDecimal s) = Inr s
   \<and> genFKValueString (KindString s) = Inr ([CHR 0x27] @ s @ [CHR 0x27])
   \<and> genFKValueString (KindBytes s) = Inr ([CHR 0x27] @ s @ [CHR 0x27])
   \<and> genFKValueString (KindOther s) = Inr ([CHR 0x27] @ s @ [CHR 0x27])"
proof -
  have examples:
    "GenCascadeDeleteSQL (ciStr ''test'') (ciStr ''child'') \<lparr>Cols = [ciStr ''a'', ciStr ''b'']\<rparr>
       [[KindInt64 1, KindInt64 2], [KindInt64 3, KindInt64 4]]
     = Inr ''DELETE FROM `test`.`child` WHERE (`a`, `b`) IN ((1,2), (3,4))''"
    "GenCascadeDeleteSQL (ciStr ''test'') (ciStr ''child'') \<lparr>Cols = [ciStr ''name'']\<rparr>
       [[KindString ''x'']]
     = Inr (''DELETE FROM `test`.`child` WHERE (`name`) IN (('' @ [CHR 0x27] @ ''x'' @ [CHR 0x27] @ ''))'')"
    by (simp_all add: GenCascadeDeleteSQL_def ciStr_def genFKValueString_def FormatInt_def
        FormatUint.simps)
  have kinds:
    "genFKValueString (KindInt64 i) = Inr (FormatInt i)"
    "genFKValueString (KindUint64 n) = Inr (FormatUint n)"
    "genFKValueString (KindFloat32 s) = Inr s"
    "genFKValueString (KindFloat64 s) = Inr s"
    "genFKValueString (KindMysqlDecimal s) = Inr s"
    "genFKValueString (KindString s) = Inr ([CHR 0x27] @ s @ [CHR 0x27])"
    "genFKValueString (KindBytes s) = Inr ([CHR 0x27] @ s @ [CHR 0x27])"
    "genFKValueString (KindOther s) = Inr ([CHR 0x27] @ s @ [CHR 0x27])"
    by (simp_all add: genFKValueString_def)
  from GenCascadeDeleteSQL_form [of vals tuples schema table fkInfo] examples kinds
  show ?thesis by blast
qed

theorem GenCascadeDeleteSQL_text_witness:
  "map (map genFKValueString) [[KindInt64 1, KindString ''x'']]
     = map (map Inr) [[''1'', [CHR 0x27, CHR ''x'', CHR 0x27]]]
   \<and> GenCascadeDeleteSQL (ciStr ''test'') (ciStr ''child'') \<lparr>Cols = [ciStr ''a'', ciStr ''name'']\<rparr>
        [[KindInt64 1, KindString ''x'']]
       = Inr (cascadeDeleteText (ciStr ''test'') (ciStr ''child'') [ciStr ''a'', ciStr ''name'']
                [[''1'', [CHR 0x27, CHR ''x'', CHR 0x27]]])"
proof -
  have rendered: "map (map genFKValueString) [[KindInt64 1, KindString ''x'']]
     = map (map Inr) [[''1'', [CHR 0x27, CHR ''x'', CHR 0x27]]]"
    by (simp add: genFKValueString_def FormatInt_def FormatUint.simps)
  from GenCascadeDeleteSQL_text [of "[[KindInt64 1, KindString ''x'']]"
      "[[''1'', [CHR 0x27, CHR ''x'', CHR 0x27]]]" "ciStr ''test''" "ciStr ''child''"
      "\<lparr>Cols = [ciStr ''a'', ciStr ''name'']\<rparr>", THEN conjunct1] rendered
  show ?thesis by simp
qed

text \<open>
  C4 as stated fails on its second example: the text for the single column \<open>name\<close> and
  the single value \<open>x\<close> is not \<^verbatim>\<open>... WHERE (`name`) IN ('x')\<close>.
\<close>

theorem GenCascadeDeleteSQL_single_value_counterexample:
  "GenCascadeDeleteSQL (ciStr ''test'') (ciStr ''child'') \<lparr>Cols = [ciStr ''name'']\<rparr>
       [[KindString ''x'']]
     \<noteq> Inr (''DELETE FROM `test`.`child` WHERE (`name`) IN ('' @ [CHR 0x27] @ ''x'' @ [CHR 0x27] @ '')'')"
  by (simp add: GenCascadeDeleteSQL_def ciStr_def genFKValueString_def)

subsection \<open>Point keys and prefix keys\<close>

text \<open>
  C9 (as amended). \<^verbatim>\<open>buildCheckKeyFromFKValue\<close> returns a point key exactly when the
  matching key is exclusive and is either the primary key or an index whose generated
  key is distinct; every other key is a prefix key. So a primary-key match gives a point
  key exactly when the key is exclusive, and a prefix key otherwise.
\<close>

theorem buildCheckKeyFromFKValue_isPrefix:
  "buildCheckKeyFromFKValue cd fkc vals = Inr (key, isPrefix) \<Longrightarrow>
   isPrefix = (\<not> (IdxIsExclusive fkc \<and> (IdxIsPrimaryKey fkc \<or>
                  (\<exists>idx k'. Idx fkc = Some idx \<and> GenIndexKey idx vals = Inr (k', True)))))"
  by (auto simp: buildCheckKeyFromFKValue_def Let_def split: if_splits sum.splits option.splits)

theorem buildCheckKeyFromFKValue_isPrefix_witness:
  "buildCheckKeyFromFKValue exCodec exCheck [KindInt64 1] = Inr (''t1_r1'', False)
   \<and> False = (\<not> (IdxIsExclusive exCheck \<and> (IdxIsPrimaryKey exCheck \<or>
                  (\<exists>idx k'. Idx exCheck = Some idx \<and> GenIndexKey idx [KindInt64 1] = Inr (k', True)))))"
proof -
  have built: "buildCheckKeyFromFKValue exCodec exCheck [KindInt64 1] = Inr (''t1_r1'', False)"
    by (simp add: buildCheckKeyFromFKValue_def buildHandleFromFKValues_def exCheck_def
        exCodec_def exTable_def FormatInt_def FormatUint.simps)
  from buildCheckKeyFromFKValue_isPrefix [OF built] built show ?thesis
    by simp
qed

text \<open>
  C9 as stated fails: a primary-key match that is not exclusive (the foreign key covers
  only a prefix of the primary key's columns) gives a prefix key.
\<close>

theorem buildCheckKeyFromFKValue_primary_counterexample:
  "IdxIsPrimaryKey exPrimaryPrefixCheck
   \<and> buildCheckKeyFromFKValue exCodec exPrimaryPrefixCheck [KindInt64 1] = Inr (''t1_r1|'', True)"
  by (simp add: buildCheckKeyFromFKValue_def buildHandleFromFKValues_def exPrimaryPrefixCheck_def
      exCheck_def exCodec_def FormatInt_def FormatUint.simps)

subsection \<open>Building the cascade executor\<close>

text \<open>
  C10 (as amended). For an ON DELETE cascade engine with at least one buffered value
  tuple whose delete statement is generated, if the session context does not implement
  the restricted SQL executor, \<^verbatim>\<open>buildExecutor\<close> returns no executor and no error.
\<close>

theorem buildExecutor_without_sql_executor:
  "tp fkc = FKCascadeOnDelete \<Longrightarrow> fkValues fkc \<noteq> [] \<Longrightarrow>
   GenCascadeDeleteSQL (ChildSchema (referredFK fkc)) (Name (childTable fkc)) (fk fkc)
     (fkValues fkc) = Inr sqlStr \<Longrightarrow>
   ParseWithParams bld = None \<Longrightarrow>
   buildExecutor bld fkc = (None, None)"
  by (auto simp: buildExecutor_def buildFKCascadePlan_def dest: GenCascadeDeleteSQL_nonempty)

theorem buildExecutor_without_sql_executor_witness:
  "tp exCascade = FKCascadeOnDelete \<and> fkValues exCascade \<noteq> []
   \<and> GenCascadeDeleteSQL (ChildSchema (referredFK exCascade)) (Name (childTable exCascade))
        (fk exCascade) (fkValues exCascade) = Inr ''DELETE FROM `test`.`child` WHERE (`a`) IN ((1))''
   \<and> ParseWithParams exBuilder = None
   \<and> buildExecutor exBuilder exCascade = (None, None)"
proof -
  have kind: "tp exCascade = FKCascadeOnDelete" and buffered: "fkValues exCascade \<noteq> []"
    by (simp_all add: exCascade_def)
  have sql: "GenCascadeDeleteSQL (ChildSchema (referredFK exCascade)) (Name (childTable exCascade))
        (fk exCascade) (fkValues exCascade) = Inr ''DELETE FROM `test`.`child` WHERE (`a`) IN ((1))''"
    by (simp add: exCascade_def GenCascadeDeleteSQL_def ciStr_def genFKValueString_def
        FormatInt_def FormatUint.simps)
  have noexec: "ParseWithParams exBuilder = None"
    by (simp add: exBuilder_def)
  from buildExecutor_without_sql_executor [OF kind buffered sql noexec] kind buffered sql noexec
  show ?thesis by simp
qed

text \<open>
  C10 as stated fails for a cascade engine of another kind: with a buffered value tuple
  and no restricted SQL executor, \<^verbatim>\<open>buildExecutor\<close> returns an error, since no
  statement is generated for that kind.
\<close>

theorem buildExecutor_other_kind_counterexample:
  "fkValues (exCascade\<lparr>tp := FKCascadeOnUpdate\<rparr>) \<noteq> []
   \<and> ParseWithParams exBuilder = None
   \<and> buildExecutor exBuilder (exCascade\<lparr>tp := FKCascadeOnUpdate\<rparr>)
       = (None, Some (ErrCascadeSQL FKCascadeOnUpdate))"
  by (simp add: buildExecutor_def buildFKCascadePlan_def exBuilder_def exCascade_def)

subsection \<open>The merge-scan\<close>

lemma memIter_loop_iterOf:
  "memIter_loop p None (iterOf ms) D =
     (case find (\<lambda>(k', v). v \<noteq> []) (takeWhile (\<lambda>(k', v). prefix p k') ms) of
        Some kv \<Rightarrow> Returned (Inr kv)
      | None \<Rightarrow> FellThrough (D \<union> fst ` set (takeWhile (\<lambda>(k', v). prefix p k') ms)))"
  by (induction ms arbitrary: D) (auto split: option.splits)

lemma snapIter_loop_iterOf:
  "snapIter_loop p None (iterOf ss) D =
     (case find (\<lambda>(k', v). k' \<notin> D) (takeWhile (\<lambda>(k', v). prefix p k') ss) of
        Some kv \<Rightarrow> Inr kv
      | None \<Rightarrow> Inr ([], []))"
  by (induction ss) (auto split: option.splits if_splits)

lemma find_None_all_tombstones:
  "find (\<lambda>(k', v). v \<noteq> []) xs = None \<Longrightarrow> filter (\<lambda>(k', v). v = []) xs = xs"
  by (induction xs) (auto split: if_splits)

lemma getIndexKeyValueInTable_iterOf:
  assumes "MemIter txn p = Inr (iterOf ms)" and "SnapIter txn p = Inr (iterOf ss)"
  shows "fst (getIndexKeyValueInTable None txn p) = Inr (mergeScan p ms ss)"
proof (cases "find (\<lambda>(k', v). v \<noteq> []) (takeWhile (\<lambda>(k', v). prefix p k') ms)")
  case None
  then have "filter (\<lambda>(k', v). v = []) (takeWhile (\<lambda>(k', v). prefix p k') ms)
      = takeWhile (\<lambda>(k', v). prefix p k') ms"
    by (rule find_None_all_tombstones)
  with None assms show ?thesis
    by (simp add: getIndexKeyValueInTable_def txnMemIter_def txnSnapIter_def mergeScan_def
        memIter_loop_iterOf snapIter_loop_iterOf Let_def del: set_filter split: option.splits)
next
  case (Some kv)
  with assms show ?thesis
    by (simp add: getIndexKeyValueInTable_def txnMemIter_def mergeScan_def
        memIter_loop_iterOf Let_def)
qed

lemma mergeScan_all_deleted:
  assumes "list_all (\<lambda>(k', v). v = []) (takeWhile (\<lambda>(k', v). prefix p k') ms)"
    and "fst ` set (takeWhile (\<lambda>(k', v). prefix p k') ss) \<subseteq> fst ` set (takeWhile (\<lambda>(k', v). prefix p k') ms)"
  shows "mergeScan p ms ss = ([], [])"
proof -
  let ?lr = "takeWhile (\<lambda>(k', v). prefix p k') ms"
  let ?sr = "takeWhile (\<lambda>(k', v). prefix p k') ss"
  have a: "find (\<lambda>(k', v). v \<noteq> []) ?lr = None"
    using assms(1) by (auto simp: find_None_iff list_all_iff)
  have f: "filter (\<lambda>(k', v). v = []) ?lr = ?lr"
    using a by (rule find_None_all_tombstones)
  have b: "find (\<lambda>(k', v). k' \<notin> fst ` set ?lr) ?sr = None"
    using assms(2) by (force simp: find_None_iff)
  show ?thesis
    using a b f by (simp add: mergeScan_def Let_def del: set_filter)
qed

subsection \<open>Reads of the buffered transaction\<close>

lemma bufferedTxn_fields [simp]:
  "Get (bufferedTxn mem snap lg) = unionGet mem snap"
  "BatchGet (bufferedTxn mem snap lg) = (\<lambda>keys. None)"
  "MemIter (bufferedTxn mem snap lg) = (\<lambda>p. Inr (iterOf (prefixRange p mem)))"
  "SnapIter (bufferedTxn mem snap lg) = (\<lambda>p. Inr (iterOf (prefixRange p snap)))"
  "accessLog (bufferedTxn mem snap lg) = lg"
  "(bufferedTxn mem snap lg)\<lparr>accessLog := lg'\<rparr> = bufferedTxn mem snap lg'"
  by (simp_all add: bufferedTxn_def)

lemma unionGet_error: "unionGet mem snap key = Inl e \<Longrightarrow> e = ErrNotExist"
  by (auto simp: unionGet_def split: option.splits if_splits)

lemma map_of_distinct_value:
  "distinct (map fst xs) \<Longrightarrow> map_of xs key = Some v \<Longrightarrow> (key, w) \<in> set xs \<Longrightarrow> w = v"
  by (metis map_of_is_SomeI option.inject)

lemma unionGet_live:
  assumes "wellFormed mem snap"
  shows "(\<exists>v. unionGet mem snap key = Inr v) = liveKey mem snap key"
proof (cases "map_of mem key")
  case None
  then have nomem: "key \<notin> fst ` set mem"
    by (simp add: map_of_eq_None_iff)
  show ?thesis
  proof (cases "map_of snap key")
    case None
    then have "key \<notin> fst ` set snap" by (simp add: map_of_eq_None_iff)
    with nomem None \<open>map_of mem key = None\<close> show ?thesis
      by (force simp: unionGet_def liveKey_def mergedView_def)
  next
    case (Some v)
    then have in_snap: "(key, v) \<in> set snap" by (rule map_of_SomeD)
    with assms have "v \<noteq> []" by (auto simp: wellFormed_def list_all_iff)
    with in_snap nomem Some \<open>map_of mem key = None\<close> show ?thesis
      by (force simp: unionGet_def liveKey_def mergedView_def)
  qed
next
  case (Some v)
  then have in_mem: "(key, v) \<in> set mem" by (rule map_of_SomeD)
  from assms have d: "distinct (map fst mem)" by (simp add: wellFormed_def)
  have only: "\<And>w. (key, w) \<in> set mem \<Longrightarrow> w = v"
    using d Some by (rule map_of_distinct_value)
  show ?thesis
  proof (cases "v = []")
    case True
    with Some only in_mem show ?thesis
      by (force simp: unionGet_def liveKey_def mergedView_def)
  next
    case False
    with Some in_mem show ?thesis
      by (force simp: unionGet_def liveKey_def mergedView_def)
  qed
qed

lemma takeWhile_prefixRange [simp]:
  "takeWhile (\<lambda>(k', v). prefix p k') (prefixRange p xs) = prefixRange p xs"
  by (simp add: prefixRange_def takeWhile_eq_all_conv)

lemma prefixRange_keys:
  "prefix p k' \<Longrightarrow> (k' \<in> fst ` set (prefixRange p xs)) = (k' \<in> fst ` set xs)"
  by (induction xs) (auto simp: prefixRange_def)

lemma prefixRange_mem:
  "((k', v) \<in> set (prefixRange p xs)) = ((k', v) \<in> set xs \<and> prefix p k')"
  by (auto simp: prefixRange_def)

lemma find_Some_D: "find P xs = Some x \<Longrightarrow> x \<in> set xs \<and> P x"
  by (induction xs) (auto split: if_splits)

lemma mergeScan_live:
  assumes "wellFormed mem snap"
  shows "(snd (mergeScan p (prefixRange p mem) (prefixRange p snap)) \<noteq> []) = livePrefix mem snap p"
proof (cases "find (\<lambda>(k', v). v \<noteq> []) (prefixRange p mem)")
  case (Some kv)
  then have "kv \<in> set (prefixRange p mem) \<and> (case kv of (k', v) \<Rightarrow> v \<noteq> [])"
    by (rule find_Some_D)
  then have "kv \<in> set (prefixRange p mem)" and "snd kv \<noteq> []"
    by (simp_all add: case_prod_beta)
  then have "fst kv \<in> fst ` set (mergedView mem snap)" and "prefix p (fst kv)"
    by (force simp: prefixRange_def mergedView_def)+
  then have "livePrefix mem snap p"
    unfolding livePrefix_def by blast
  with Some \<open>snd kv \<noteq> []\<close> show ?thesis
    by (simp add: mergeScan_def Let_def)
next
  case None
  then have tomb: "filter (\<lambda>(k', v). v = []) (prefixRange p mem) = prefixRange p mem"
    by (rule find_None_all_tombstones)
  from None have nolive: "\<And>k' v. (k', v) \<in> set mem \<Longrightarrow> prefix p k' \<Longrightarrow> v = []"
    by (auto simp: find_None_iff prefixRange_def)
  from assms have snapwf: "\<And>k' v. (k', v) \<in> set snap \<Longrightarrow> v \<noteq> []"
    by (auto simp: wellFormed_def list_all_iff)
  show ?thesis
  proof (cases "find (\<lambda>(k', v). k' \<notin> fst ` set (prefixRange p mem)) (prefixRange p snap)")
    case (Some kv)
    then have "kv \<in> set (prefixRange p snap)
        \<and> (case kv of (k', v) \<Rightarrow> k' \<notin> fst ` set (prefixRange p mem))"
      by (rule find_Some_D)
    then have kv: "kv \<in> set (prefixRange p snap)" "fst kv \<notin> fst ` set (prefixRange p mem)"
      by (simp_all add: case_prod_beta)
    then have pk: "prefix p (fst kv)" and insnap: "kv \<in> set snap"
      by (auto simp: prefixRange_def)
    with kv(2) have "fst kv \<notin> fst ` set mem"
      by (simp add: prefixRange_keys)
    moreover have nonempty: "snd kv \<noteq> []"
      using insnap snapwf [of "fst kv" "snd kv"] by simp
    ultimately have "fst kv \<in> fst ` set (mergedView mem snap)"
      using insnap by (force simp: mergedView_def)
    with pk have "livePrefix mem snap p"
      unfolding livePrefix_def by blast
    with None Some tomb nonempty show ?thesis
      by (simp add: mergeScan_def Let_def del: set_filter)
  next
    case snapNone: None
    have "\<not> livePrefix mem snap p"
    proof
      assume "livePrefix mem snap p"
      then obtain k' v where e: "(k', v) \<in> set (mergedView mem snap)" and pk: "prefix p k'"
        by (auto simp: livePrefix_def)
      then have "v \<noteq> []" by (auto simp: mergedView_def)
      from e consider "(k', v) \<in> set mem" | "(k', v) \<in> set snap" "k' \<notin> fst ` set mem"
        by (auto simp: mergedView_def)
      then show False
      proof cases
        case 1
        with pk nolive \<open>v \<noteq> []\<close> show False by blast
      next
        case 2
        then have "(k', v) \<in> set (prefixRange p snap)" "k' \<notin> fst ` set (prefixRange p mem)"
          using pk by (simp_all add: prefixRange_keys prefixRange_mem)
        with snapNone show False
          by (auto simp: find_None_iff)
      qed
    qed
    with None snapNone tomb show ?thesis
      by (simp add: mergeScan_def Let_def del: set_filter)
  qed
qed

lemma txn_ops_buffered [simp]:
  "txnGet (bufferedTxn mem snap lg) key = (unionGet mem snap key, bufferedTxn mem snap (lg @ [AccGet key]))"
  "txnBatchGet (bufferedTxn mem snap lg) keys = (None, bufferedTxn mem snap (lg @ [AccBatchGet keys]))"
  "txnMemIter (bufferedTxn mem snap lg) p = (Inr (iterOf (prefixRange p mem)), bufferedTxn mem snap (lg @ [AccMemIter p]))"
  "txnSnapIter (bufferedTxn mem snap lg) p = (Inr (iterOf (prefixRange p snap)), bufferedTxn mem snap (lg @ [AccSnapIter p]))"
  by (simp_all add: txnGet_def txnBatchGet_def txnMemIter_def txnSnapIter_def)

lemma unionGet_cases:
  assumes "wellFormed mem snap"
  shows "(liveKey mem snap key \<and> (\<exists>v. unionGet mem snap key = Inr v))
       \<or> (\<not> liveKey mem snap key \<and> unionGet mem snap key = Inl ErrNotExist)"
proof (cases "unionGet mem snap key")
  case (Inl e)
  then have "e = ErrNotExist" by (rule unionGet_error)
  with Inl unionGet_live [OF assms, of key] show ?thesis by auto
next
  case (Inr v)
  with unionGet_live [OF assms, of key] show ?thesis by auto
qed

lemma checkKey_buffered:
  assumes "wellFormed mem snap"
  shows "checkKey fkc (bufferedTxn mem snap lg) key =
     (if CheckExist fkc = liveKey mem snap key then None else Some (FailedErr fkc),
      if CheckExist fkc \<and> liveKey mem snap key
      then fkc\<lparr>toBeLockedKeys := toBeLockedKeys fkc @ [key]\<rparr> else fkc,
      bufferedTxn mem snap (lg @ [AccGet key]))"
  using unionGet_cases [OF assms, of key]
  by (auto simp: checkKey_def checkKeyExist_def checkKeyNotExist_def IsErrNotFound_def)

lemma getIndexKeyValueInTable_buffered:
  "getIndexKeyValueInTable None (bufferedTxn mem snap lg) p =
     (Inr (mergeScan p (prefixRange p mem) (prefixRange p snap)),
      bufferedTxn mem snap
        (if find (\<lambda>(k', v). v \<noteq> []) (prefixRange p mem) = None
         then lg @ [AccMemIter p, AccSnapIter p] else lg @ [AccMemIter p]))"
proof (cases "find (\<lambda>(k', v). v \<noteq> []) (prefixRange p mem)")
  case None
  then have "filter (\<lambda>(k', v). v = []) (prefixRange p mem) = prefixRange p mem"
    by (rule find_None_all_tombstones)
  with None show ?thesis
    by (simp add: getIndexKeyValueInTable_def mergeScan_def memIter_loop_iterOf
        snapIter_loop_iterOf Let_def del: set_filter split: option.splits)
next
  case (Some kv)
  then show ?thesis
    by (simp add: getIndexKeyValueInTable_def mergeScan_def memIter_loop_iterOf Let_def)
qed

lemma mergeScan_member:
  assumes "wellFormed mem snap"
    and "mergeScan p (prefixRange p mem) (prefixRange p snap) = (k', v)" and "v \<noteq> []"
  shows "(k', v) \<in> set (mergedView mem snap) \<and> prefix p k'"
proof (cases "find (\<lambda>(k', v). v \<noteq> []) (prefixRange p mem)")
  case (Some kv)
  with assms(2) have "kv = (k', v)" by (simp add: mergeScan_def Let_def)
  with Some have "(k', v) \<in> set (prefixRange p mem)"
    by (auto dest: find_Some_D)
  with assms(3) show ?thesis
    by (auto simp: prefixRange_mem mergedView_def)
next
  case None
  then have tomb: "filter (\<lambda>(k', v). v = []) (prefixRange p mem) = prefixRange p mem"
    by (rule find_None_all_tombstones)
  show ?thesis
  proof (cases "find (\<lambda>(k', v). k' \<notin> fst ` set (prefixRange p mem)) (prefixRange p snap)")
    case snapNone: None
    with None tomb assms(2,3) show ?thesis
      by (simp add: mergeScan_def Let_def del: set_filter)
  next
    case (Some kv)
    with None tomb assms(2) have "kv = (k', v)"
      by (simp add: mergeScan_def Let_def del: set_filter)
    with Some have "(k', v) \<in> set (prefixRange p snap)
        \<and> (case (k', v) of (k', v) \<Rightarrow> k' \<notin> fst ` set (prefixRange p mem))"
      by (auto dest: find_Some_D)
    then have a: "(k', v) \<in> set snap" "prefix p k'" "k' \<notin> fst ` set (prefixRange p mem)"
      by (simp_all add: prefixRange_mem)
    then have "k' \<notin> fst ` set mem" by (simp add: prefixRange_keys)
    with a assms(3) show ?thesis
      by (simp add: mergedView_def)
  qed
qed

text \<open>
  C2. The merge-scan of \<^verbatim>\<open>getIndexKeyValueInTable\<close>, over iterators that do not fail:
  the keys with empty values in the local range form the skip-set, the first local entry
  with a non-empty value is returned if there is one, otherwise the first snapshot entry
  under the prefix whose key is not in the skip-set, and otherwise nothing (nil key and
  value). In particular, when every local entry under the prefix is a tombstone and
  every snapshot key under the prefix has such a tombstone, nothing is found, and the
  prefix check sees the row as not existing.
\<close>

theorem getIndexKeyValueInTable_merge_scan:
  assumes "MemIter txn p = Inr (iterOf ms)" and "SnapIter txn p = Inr (iterOf ss)"
  shows "fst (getIndexKeyValueInTable None txn p) = Inr (mergeScan p ms ss)
       \<and> (list_all (\<lambda>(k', v). v = []) (takeWhile (\<lambda>(k', v). prefix p k') ms)
            \<and> fst ` set (takeWhile (\<lambda>(k', v). prefix p k') ss)
                \<subseteq> fst ` set (takeWhile (\<lambda>(k', v). prefix p k') ms)
          \<longrightarrow> fst (getIndexKeyValueInTable None txn p) = Inr ([], [])
              \<and> fst (checkPrefixKey None cd fkc txn p)
                  = (if CheckExist fkc then Some (FailedErr fkc) else None))"
proof -
  have scan: "fst (getIndexKeyValueInTable None txn p) = Inr (mergeScan p ms ss)"
    using assms by (rule getIndexKeyValueInTable_iterOf)
  have "fst (checkPrefixKey None cd fkc txn p)
      = (if CheckExist fkc then Some (FailedErr fkc) else None)"
    if "fst (getIndexKeyValueInTable None txn p) = Inr ([], [])"
    using that
    by (cases "getIndexKeyValueInTable None txn p")
      (simp add: checkPrefixKey_def checkPrefixKeyExist_def)
  with scan mergeScan_all_deleted [of p ms ss] show ?thesis
    by simp
qed

theorem getIndexKeyValueInTable_merge_scan_witness:
  "MemIter (bufferedTxn exMem exSnap []) ''t1_i11|'' = Inr (iterOf [(''t1_i11|7'', [])])
   \<and> SnapIter (bufferedTxn exMem exSnap []) ''t1_i11|'' = Inr (iterOf [(''t1_i11|7'', ''7'')])
   \<and> fst (getIndexKeyValueInTable None (bufferedTxn exMem exSnap []) ''t1_i11|'') = Inr ([], [])
   \<and> fst (checkPrefixKey None exCodec exIndexCheck (bufferedTxn exMem exSnap []) ''t1_i11|'')
       = Some ErrNoReferencedRow"
proof -
  have m: "MemIter (bufferedTxn exMem exSnap []) ''t1_i11|'' = Inr (iterOf [(''t1_i11|7'', [])])"
    by (simp add: bufferedTxn_def prefixRange_def exMem_def)
  have s: "SnapIter (bufferedTxn exMem exSnap []) ''t1_i11|'' = Inr (iterOf [(''t1_i11|7'', ''7'')])"
    by (simp add: bufferedTxn_def prefixRange_def exSnap_def)
  have e: "CheckExist exIndexCheck" "FailedErr exIndexCheck = ErrNoReferencedRow"
    by (simp_all add: exIndexCheck_def exCheck_def)
  from getIndexKeyValueInTable_merge_scan [OF m s, of exCodec exIndexCheck, THEN conjunct2] m s e
  show ?thesis by simp
qed

text \<open>
  C1. Over a write buffer with one entry per key and a snapshot without empty values,
  with a decoder that never reports the engine's constraint violation: when
  \<^verbatim>\<open>CheckExist\<close> is true the check of a key returns \<^verbatim>\<open>FailedErr\<close> if and only if the
  merged view has no live entry for it, and when \<^verbatim>\<open>CheckExist\<close> is false if and only
  if the merged view has one; for a point key (\<^verbatim>\<open>checkKey\<close>) the live entry is the one
  under the key, for a prefix key (\<^verbatim>\<open>checkPrefixKey\<close>) any one under the prefix. A
  point check, and a prefix check for non-existence, that does not return
  \<^verbatim>\<open>FailedErr\<close> returns no error.
\<close>

theorem check_fails_iff_not_live:
  assumes wf: "wellFormed mem snap"
    and dec: "\<forall>k' v n. DecodeIndexHandle cd k' v n \<noteq> Inl (FailedErr fkc)"
    and np: "FailedErr fkc \<noteq> GoPanic"
  shows "(CheckExist fkc \<longrightarrow>
            ((fst (checkKey fkc (bufferedTxn mem snap lg) key) = Some (FailedErr fkc))
               = (\<not> liveKey mem snap key))
          \<and> ((fst (checkPrefixKey None cd fkc (bufferedTxn mem snap lg) key) = Some (FailedErr fkc))
               = (\<not> livePrefix mem snap key)))
       \<and> (\<not> CheckExist fkc \<longrightarrow>
            ((fst (checkKey fkc (bufferedTxn mem snap lg) key) = Some (FailedErr fkc))
               = liveKey mem snap key)
          \<and> ((fst (checkPrefixKey None cd fkc (bufferedTxn mem snap lg) key) = Some (FailedErr fkc))
               = livePrefix mem snap key))
       \<and> fst (checkKey fkc (bufferedTxn mem snap lg) key) \<in> {None, Some (FailedErr fkc)}
       \<and> (\<not> CheckExist fkc \<longrightarrow>
            fst (checkPrefixKey None cd fkc (bufferedTxn mem snap lg) key)
              \<in> {None, Some (FailedErr fkc)})"
proof -
  obtain k' v where ms: "mergeScan key (prefixRange key mem) (prefixRange key snap) = (k', v)"
    by (cases "mergeScan key (prefixRange key mem) (prefixRange key snap)")
  with mergeScan_live [OF wf, of key] have live: "livePrefix mem snap key = (v \<noteq> [])"
    by simp
  have point: "fst (checkKey fkc (bufferedTxn mem snap lg) key)
           = (if CheckExist fkc = liveKey mem snap key then None else Some (FailedErr fkc))"
    by (simp add: checkKey_buffered [OF wf])
  have exist: "(fst (checkPrefixKeyExist cd fkc k' v) = Some (FailedErr fkc)) = (v = [])"
    using dec np
    by (auto simp: checkPrefixKeyExist_def Let_def split: option.splits sum.splits)
  have pre: "(fst (checkPrefixKey None cd fkc (bufferedTxn mem snap lg) key) = Some (FailedErr fkc))
           = (CheckExist fkc \<noteq> livePrefix mem snap key)"
    using exist ms live
    by (auto simp: checkPrefixKey_def getIndexKeyValueInTable_buffered split: prod.splits)
  have pre2: "\<not> CheckExist fkc \<longrightarrow> fst (checkPrefixKey None cd fkc (bufferedTxn mem snap lg) key)
           = (if livePrefix mem snap key then Some (FailedErr fkc) else None)"
    using ms live
    by (auto simp: checkPrefixKey_def getIndexKeyValueInTable_buffered split: prod.splits)
  from point pre pre2 show ?thesis
    by (cases "CheckExist fkc"; cases "liveKey mem snap key"; cases "livePrefix mem snap key") simp_all
qed

theorem check_fails_iff_not_live_witness:
  "wellFormed exMem exSnap
   \<and> \<not> liveKey exMem exSnap ''t1_r7'' \<and> liveKey exMem exSnap ''t1_r8''
   \<and> \<not> livePrefix exMem exSnap ''t1_i11|'' \<and> livePrefix exMem exSnap ''t1_i12|''
   \<and> fst (checkKey exIndexCheck (bufferedTxn exMem exSnap []) ''t1_r7'') = Some ErrNoReferencedRow
   \<and> fst (checkKey exIndexCheck (bufferedTxn exMem exSnap []) ''t1_r8'') \<noteq> Some ErrNoReferencedRow
   \<and> fst (checkPrefixKey None exCodec exIndexCheck (bufferedTxn exMem exSnap []) ''t1_i11|'')
       = Some ErrNoReferencedRow
   \<and> fst (checkPrefixKey None exCodec exIndexCheck (bufferedTxn exMem exSnap []) ''t1_i12|'')
       \<noteq> Some ErrNoReferencedRow"
proof -
  have wf: "wellFormed exMem exSnap"
    by (simp add: wellFormed_def exMem_def exSnap_def)
  have dec: "\<forall>k' v n. DecodeIndexHandle exCodec k' v n \<noteq> Inl (FailedErr exIndexCheck)"
    by (simp add: exCodec_def)
  have np: "FailedErr exIndexCheck \<noteq> GoPanic"
    by (simp add: exIndexCheck_def exCheck_def)
  have e: "CheckExist exIndexCheck" "FailedErr exIndexCheck = ErrNoReferencedRow"
    by (simp_all add: exIndexCheck_def exCheck_def)
  have live: "\<not> liveKey exMem exSnap ''t1_r7''" "liveKey exMem exSnap ''t1_r8''"
    "\<not> livePrefix exMem exSnap ''t1_i11|''" "livePrefix exMem exSnap ''t1_i12|''"
    by (simp_all add: liveKey_def livePrefix_def mergedView_def exMem_def exSnap_def)
  from check_fails_iff_not_live [OF wf dec np, of "[]" "''t1_r7''"]
    check_fails_iff_not_live [OF wf dec np, of "[]" "''t1_r8''"]
    check_fails_iff_not_live [OF wf dec np, of "[]" "''t1_i11|''"]
    check_fails_iff_not_live [OF wf dec np, of "[]" "''t1_i12|''"]
    wf e live
  show ?thesis by simp
qed

subsection \<open>Locked keys\<close>

lemma locksGrow_refl: "locksGrow fkc fkc S"
  unfolding locksGrow_def by (rule exI [of _ "[]"]) simp

lemma locksGrow_append:
  "set ls \<subseteq> S \<Longrightarrow> (\<not> CheckExist fkc \<longrightarrow> ls = []) \<Longrightarrow>
   locksGrow fkc (fkc\<lparr>toBeLockedKeys := toBeLockedKeys fkc @ ls\<rparr>) S"
  unfolding locksGrow_def by (rule exI [of _ ls]) simp

lemma locksGrow_trans:
  assumes "locksGrow a b S" and "locksGrow b c T"
  shows "locksGrow a c (S \<union> T)"
proof -
  from assms(1) obtain l1 where
    1: "b = a\<lparr>toBeLockedKeys := toBeLockedKeys a @ l1\<rparr>" "set l1 \<subseteq> S" "\<not> CheckExist a \<longrightarrow> l1 = []"
    unfolding locksGrow_def by blast
  from assms(2) obtain l2 where
    2: "c = b\<lparr>toBeLockedKeys := toBeLockedKeys b @ l2\<rparr>" "set l2 \<subseteq> T" "\<not> CheckExist b \<longrightarrow> l2 = []"
    unfolding locksGrow_def by blast
  have "c = a\<lparr>toBeLockedKeys := toBeLockedKeys a @ (l1 @ l2)\<rparr>"
    using 1(1) 2(1) by simp
  moreover have "set (l1 @ l2) \<subseteq> S \<union> T"
    using 1(2) 2(2) by auto
  moreover have "\<not> CheckExist a \<longrightarrow> l1 @ l2 = []"
    using 1(1,3) 2(3) by simp
  ultimately show ?thesis
    unfolding locksGrow_def by (intro exI [of _ "l1 @ l2"] conjI)
qed

lemma locksGrow_mono: "locksGrow a b S \<Longrightarrow> S \<subseteq> T \<Longrightarrow> locksGrow a b T"
  unfolding locksGrow_def by blast

lemma locksGrow_fields:
  assumes "locksGrow fkc fkc' S"
  shows "CheckExist fkc' = CheckExist fkc" "Idx fkc' = Idx fkc" "Tbl fkc' = Tbl fkc"
    "toBeCheckedKeys fkc' = toBeCheckedKeys fkc"
    "toBeCheckedPrefixKeys fkc' = toBeCheckedPrefixKeys fkc"
    "fkValuesSet fkc' = fkValuesSet fkc"
  using assms unfolding locksGrow_def by auto

lemma locksGrow_locked:
  assumes "locksGrow fkc fkc' S"
  shows "set (toBeLockedKeys fkc') \<subseteq> set (toBeLockedKeys fkc) \<union> S"
    and "\<not> CheckExist fkc \<Longrightarrow> toBeLockedKeys fkc' = toBeLockedKeys fkc"
  using assms unfolding locksGrow_def by auto

lemma lockKeysOf_cong:
  "Idx fkc' = Idx fkc \<Longrightarrow> Tbl fkc' = Tbl fkc \<Longrightarrow> lockKeysOf cd fkc' = lockKeysOf cd fkc"
  by (simp add: lockKeysOf_def fun_eq_iff cong: option.case_cong sum.case_cong)

lemma prefixLockKeys_grow:
  assumes "locksGrow fkc fkc' S"
  shows "prefixLockKeys cd fkc' mem snap ps = prefixLockKeys cd fkc mem snap ps"
proof -
  from assms have "Idx fkc' = Idx fkc" and "Tbl fkc' = Tbl fkc"
    by (rule locksGrow_fields)+
  then have "lockKeysOf cd fkc' = lockKeysOf cd fkc"
    by (rule lockKeysOf_cong)
  then show ?thesis
    by (simp add: prefixLockKeys_def)
qed

lemma checkKey_grow:
  assumes wf: "wellFormed mem snap"
    and run: "checkKey fkc (bufferedTxn mem snap lg) key = (res, fkc', txn')"
  shows "txn' = bufferedTxn mem snap (lg @ [AccGet key])
       \<and> locksGrow fkc fkc' {k' \<in> {key}. liveKey mem snap k'}"
proof -
  from run have t: "txn' = bufferedTxn mem snap (lg @ [AccGet key])"
    and f: "fkc' = (if CheckExist fkc \<and> liveKey mem snap key
      then fkc\<lparr>toBeLockedKeys := toBeLockedKeys fkc @ [key]\<rparr> else fkc)"
    by (simp_all add: checkKey_buffered [OF wf])
  have "locksGrow fkc fkc' {k' \<in> {key}. liveKey mem snap k'}"
  proof (cases "CheckExist fkc \<and> liveKey mem snap key")
    case True
    then have "locksGrow fkc (fkc\<lparr>toBeLockedKeys := toBeLockedKeys fkc @ [key]\<rparr>)
        {k' \<in> {key}. liveKey mem snap k'}"
      by (intro locksGrow_append) simp_all
    with f True show ?thesis by simp
  next
    case False
    with f have "fkc' = fkc" by simp
    then show ?thesis by (simp add: locksGrow_refl)
  qed
  with t show ?thesis by simp
qed

lemma checkKeys_loop_grow:
  assumes wf: "wellFormed mem snap"
  shows "checkKeys_loop fkc (bufferedTxn mem snap lg) keys = (res, fkc', txn') \<Longrightarrow>
         (\<exists>lg'. txn' = bufferedTxn mem snap lg')
         \<and> locksGrow fkc fkc' {k' \<in> set keys. liveKey mem snap k'}"
proof (induction keys arbitrary: fkc lg)
  case Nil
  then show ?case by (auto simp: locksGrow_refl)
next
  case (Cons key keys)
  obtain res1 fkc1 txn1 where c: "checkKey fkc (bufferedTxn mem snap lg) key = (res1, fkc1, txn1)"
    by (cases "checkKey fkc (bufferedTxn mem snap lg) key") auto
  from checkKey_grow [OF wf c] have t1: "txn1 = bufferedTxn mem snap (lg @ [AccGet key])"
    and g1: "locksGrow fkc fkc1 {k' \<in> {key}. liveKey mem snap k'}"
    by simp_all
  have g1': "locksGrow fkc fkc1 {k' \<in> set (key # keys). liveKey mem snap k'}"
    using g1 by (rule locksGrow_mono) auto
  show ?case
  proof (cases res1)
    case (Some err)
    with c Cons.prems have "fkc' = fkc1" "txn' = txn1" by simp_all
    with t1 g1' show ?thesis by blast
  next
    case None
    with c Cons.prems t1 have
      "checkKeys_loop fkc1 (bufferedTxn mem snap (lg @ [AccGet key])) keys = (res, fkc', txn')"
      by simp
    from Cons.IH [OF this] have t: "\<exists>lg'. txn' = bufferedTxn mem snap lg'"
      and g2: "locksGrow fkc1 fkc' {k' \<in> set keys. liveKey mem snap k'}"
      by simp_all
    from locksGrow_trans [OF g1 g2]
    have "locksGrow fkc fkc' {k' \<in> set (key # keys). liveKey mem snap k'}"
      by (rule locksGrow_mono) auto
    with t show ?thesis by simp
  qed
qed

lemma checkPrefixKeyExist_grow:
  assumes "checkPrefixKeyExist cd fkc k' v = (res, fkc')" and "CheckExist fkc"
  shows "locksGrow fkc fkc' (if v = [] then {} else lockKeysOf cd fkc k' v)"
proof (cases "v = []")
  case True
  with assms have "fkc' = fkc" by (simp add: checkPrefixKeyExist_def)
  then show ?thesis by (simp add: locksGrow_refl)
next
  case False
  show ?thesis
  proof (cases "Idx fkc")
    case None
    with False assms have "fkc' = fkc" by (simp add: checkPrefixKeyExist_def)
    then show ?thesis by (simp add: locksGrow_refl)
  next
    case (Some idx)
    show ?thesis
    proof (cases "Primary idx \<and> IsCommonHandle (Meta (Tbl fkc))")
      case True
      with False Some assms have "fkc' = fkc\<lparr>toBeLockedKeys := toBeLockedKeys fkc @ [k']\<rparr>"
        by (simp add: checkPrefixKeyExist_def)
      moreover from True Some have "set [k'] \<subseteq> lockKeysOf cd fkc k' v"
        by (simp add: lockKeysOf_def)
      then have "locksGrow fkc (fkc\<lparr>toBeLockedKeys := toBeLockedKeys fkc @ [k']\<rparr>)
          (lockKeysOf cd fkc k' v)"
        using assms(2) by (intro locksGrow_append) simp_all
      ultimately show ?thesis using False by simp
    next
      case notPrimary: False
      show ?thesis
      proof (cases "DecodeIndexHandle cd k' v (length (Columns idx))")
        case (Inl err)
        with False Some notPrimary assms have "fkc' = fkc"
          by (auto simp: checkPrefixKeyExist_def)
        then show ?thesis by (simp add: locksGrow_refl)
      next
        case (Inr handle)
        let ?hk = "EncodeRecordKey cd (RecordPrefix (Tbl fkc)) handle"
        from False Some notPrimary Inr assms
        have "fkc' = fkc\<lparr>toBeLockedKeys := toBeLockedKeys fkc @ [?hk]\<rparr>"
          by (auto simp: checkPrefixKeyExist_def Let_def)
        moreover from Some notPrimary Inr have "set [?hk] \<subseteq> lockKeysOf cd fkc k' v"
          by (auto simp: lockKeysOf_def)
        then have "locksGrow fkc (fkc\<lparr>toBeLockedKeys := toBeLockedKeys fkc @ [?hk]\<rparr>)
            (lockKeysOf cd fkc k' v)"
          using assms(2) by (intro locksGrow_append) simp_all
        ultimately show ?thesis using False by simp
      qed
    qed
  qed
qed

lemma prefixLockKeys_sub:
  "prefixLockKeys cd fkc mem snap [p] \<subseteq> prefixLockKeys cd fkc mem snap (p # ps)"
  "prefixLockKeys cd fkc mem snap ps \<subseteq> prefixLockKeys cd fkc mem snap (p # ps)"
  by (auto simp: prefixLockKeys_def)

lemma checkPrefixKey_grow:
  assumes wf: "wellFormed mem snap"
    and run: "checkPrefixKey None cd fkc (bufferedTxn mem snap lg) p = (res, fkc', txn')"
  shows "(\<exists>lg'. txn' = bufferedTxn mem snap lg')
       \<and> locksGrow fkc fkc' (prefixLockKeys cd fkc mem snap [p])"
proof -
  obtain k' v where ms: "mergeScan p (prefixRange p mem) (prefixRange p snap) = (k', v)"
    by (cases "mergeScan p (prefixRange p mem) (prefixRange p snap)")
  obtain lg1 where g: "getIndexKeyValueInTable None (bufferedTxn mem snap lg) p
      = (Inr (k', v), bufferedTxn mem snap lg1)"
    using ms by (simp add: getIndexKeyValueInTable_buffered)
  show ?thesis
  proof (cases "CheckExist fkc")
    case False
    with run g have "fkc' = fkc" "txn' = bufferedTxn mem snap lg1"
      by (auto simp: checkPrefixKey_def split: if_splits)
    then show ?thesis by (auto intro: locksGrow_refl)
  next
    case True
    obtain res1 fkc1 where e: "checkPrefixKeyExist cd fkc k' v = (res1, fkc1)"
      by (cases "checkPrefixKeyExist cd fkc k' v")
    with run g True have r: "fkc' = fkc1" "txn' = bufferedTxn mem snap lg1"
      by (simp_all add: checkPrefixKey_def)
    from checkPrefixKeyExist_grow [OF e True]
    have gr: "locksGrow fkc fkc1 (if v = [] then {} else lockKeysOf cd fkc k' v)" .
    have "(if v = [] then {} else lockKeysOf cd fkc k' v) \<subseteq> prefixLockKeys cd fkc mem snap [p]"
    proof (cases "v = []")
      case True
      then show ?thesis by simp
    next
      case False
      with mergeScan_member [OF wf ms] have "(k', v) \<in> set (mergedView mem snap)" "prefix p k'"
        by simp_all
      then have "lockKeysOf cd fkc k' v \<subseteq> prefixLockKeys cd fkc mem snap [p]"
        unfolding prefixLockKeys_def by fastforce
      with False show ?thesis by simp
    qed
    with gr have "locksGrow fkc fkc1 (prefixLockKeys cd fkc mem snap [p])"
      by (rule locksGrow_mono)
    with r show ?thesis by auto
  qed
qed

lemma checkPrefixKey_grow_ctx:
  assumes wf: "wellFormed mem snap"
    and run: "checkPrefixKey ctx cd fkc (bufferedTxn mem snap lg) p = (res, fkc', txn')"
  shows "(\<exists>lg'. txn' = bufferedTxn mem snap lg')
       \<and> locksGrow fkc fkc' (prefixLockKeys cd fkc mem snap [p])"
proof (cases ctx)
  case None
  with run show ?thesis by (simp add: checkPrefixKey_grow [OF wf])
next
  case (Some e)
  with run have "fkc' = fkc" "txn' = bufferedTxn mem snap lg"
    by (simp_all add: checkPrefixKey_def getIndexKeyValueInTable_def)
  then show ?thesis by (auto intro: locksGrow_refl)
qed

lemma checkIndexKeys_loop_grow:
  assumes wf: "wellFormed mem snap"
  shows "checkIndexKeys_loop ctx cd fkc (bufferedTxn mem snap lg) ps = (res, fkc', txn') \<Longrightarrow>
         (\<exists>lg'. txn' = bufferedTxn mem snap lg')
         \<and> locksGrow fkc fkc' (prefixLockKeys cd fkc mem snap ps)"
proof (induction ps arbitrary: fkc lg)
  case Nil
  then show ?case by (auto simp: locksGrow_refl)
next
  case (Cons p ps)
  obtain res1 fkc1 txn1 where
    c: "checkPrefixKey ctx cd fkc (bufferedTxn mem snap lg) p = (res1, fkc1, txn1)"
    by (cases "checkPrefixKey ctx cd fkc (bufferedTxn mem snap lg) p") auto
  from checkPrefixKey_grow_ctx [OF wf c] obtain lg1 where t1: "txn1 = bufferedTxn mem snap lg1"
    and g1: "locksGrow fkc fkc1 (prefixLockKeys cd fkc mem snap [p])"
    by blast
  have g1': "locksGrow fkc fkc1 (prefixLockKeys cd fkc mem snap (p # ps))"
    using g1 prefixLockKeys_sub(1) by (rule locksGrow_mono)
  show ?case
  proof (cases res1)
    case (Some err)
    with c Cons.prems have "fkc' = fkc1" "txn' = txn1" by simp_all
    with t1 g1' show ?thesis by blast
  next
    case None
    with c Cons.prems t1 have
      "checkIndexKeys_loop ctx cd fkc1 (bufferedTxn mem snap lg1) ps = (res, fkc', txn')"
      by simp
    from Cons.IH [OF this] have t: "\<exists>lg'. txn' = bufferedTxn mem snap lg'"
      and g2: "locksGrow fkc1 fkc' (prefixLockKeys cd fkc1 mem snap ps)"
      by simp_all
    from g2 prefixLockKeys_grow [OF g1, of cd mem snap ps]
    have g2': "locksGrow fkc1 fkc' (prefixLockKeys cd fkc mem snap ps)"
      by simp
    from locksGrow_trans [OF g1 g2']
    have "locksGrow fkc fkc' (prefixLockKeys cd fkc mem snap (p # ps))"
      by (rule locksGrow_mono) (use prefixLockKeys_sub in blast)
    with t show ?thesis by simp
  qed
qed

lemma doCheck_grow:
  assumes wf: "wellFormed mem snap"
    and txn: "Txn sess = Inr (bufferedTxn mem snap lg)"
    and run: "doCheck ctx cd sess fkc = (res, fkc', sess')"
  shows "locksGrow fkc fkc' (confirmedKeys cd fkc mem snap)"
proof -
  let ?T = "bufferedTxn mem snap lg"
  obtain r1 fkc1 txn1 where k: "checkKeys fkc ?T = (r1, fkc1, txn1)"
    by (cases "checkKeys fkc ?T") auto
  have "(\<exists>lg'. txn1 = bufferedTxn mem snap lg')
       \<and> locksGrow fkc fkc1 {k' \<in> set (toBeCheckedKeys fkc). liveKey mem snap k'}"
  proof (cases "toBeCheckedKeys fkc = []")
    case True
    with k show ?thesis by (auto simp: checkKeys_def locksGrow_refl)
  next
    case False
    with k have "checkKeys_loop fkc (bufferedTxn mem snap (lg @ [AccBatchGet (toBeCheckedKeys fkc)]))
        (toBeCheckedKeys fkc) = (r1, fkc1, txn1)"
      by (simp add: checkKeys_def prefetchKeys_def)
    then show ?thesis by (rule checkKeys_loop_grow [OF wf])
  qed
  then obtain lg1 where t1: "txn1 = bufferedTxn mem snap lg1"
    and g1: "locksGrow fkc fkc1 {k' \<in> set (toBeCheckedKeys fkc). liveKey mem snap k'}"
    by blast
  have g1': "locksGrow fkc fkc1 (confirmedKeys cd fkc mem snap)"
    using g1 by (rule locksGrow_mono) (simp add: confirmedKeys_def)
  show ?thesis
  proof (cases r1)
    case (Some err)
    with run txn k have "fkc' = fkc1" by (simp add: doCheck_def)
    with g1' show ?thesis by simp
  next
    case None
    obtain r2 fkc2 txn2 where i: "checkIndexKeys ctx cd fkc1 txn1 = (r2, fkc2, txn2)"
      by (cases "checkIndexKeys ctx cd fkc1 txn1") auto
    have q: "toBeCheckedPrefixKeys fkc1 = toBeCheckedPrefixKeys fkc"
      using g1 by (rule locksGrow_fields)
    have "locksGrow fkc1 fkc2 (prefixLockKeys cd fkc1 mem snap (toBeCheckedPrefixKeys fkc1))"
    proof (cases "toBeCheckedPrefixKeys fkc1 = []")
      case True
      with i show ?thesis by (auto simp: checkIndexKeys_def locksGrow_refl)
    next
      case False
      with i t1 have "checkIndexKeys_loop ctx cd fkc1 (bufferedTxn mem snap lg1)
          (toBeCheckedPrefixKeys fkc1) = (r2, fkc2, txn2)"
        by (simp add: checkIndexKeys_def)
      from checkIndexKeys_loop_grow [OF wf this] show ?thesis by simp
    qed
    with q prefixLockKeys_grow [OF g1, of cd mem snap "toBeCheckedPrefixKeys fkc"]
    have g2: "locksGrow fkc1 fkc2 (prefixLockKeys cd fkc mem snap (toBeCheckedPrefixKeys fkc))"
      by simp
    from locksGrow_trans [OF g1 g2]
    have g12: "locksGrow fkc fkc2 (confirmedKeys cd fkc mem snap)"
      by (simp add: confirmedKeys_def)
    from run txn k None i have "fkc' = fkc2"
      by (auto simp: doCheck_def Let_def split: option.splits if_splits prod.splits)
    with g12 show ?thesis by simp
  qed
qed

text \<open>
  C6. Over a write buffer with one entry per key and a snapshot without empty values,
  after \<^verbatim>\<open>doCheck\<close> the to-be-locked keys are the ones
  the engine had before together with keys confirmed to exist: queued point keys that
  are live in the merged view, and keys derived from a live entry of the merged view
  under a queued prefix. When \<^verbatim>\<open>CheckExist\<close> is false nothing is added; so an engine
  that starts with no key to lock ends with none whenever it checks for non-existence or
  no checked key existed.
\<close>

theorem locked_subset_confirmed:
  assumes wf: "wellFormed mem snap"
    and txn: "Txn sess = Inr (bufferedTxn mem snap lg)"
    and run: "doCheck ctx cd sess fkc = (res, fkc', sess')"
  shows "set (toBeLockedKeys fkc') \<subseteq> set (toBeLockedKeys fkc) \<union> confirmedKeys cd fkc mem snap
       \<and> (\<not> CheckExist fkc \<longrightarrow> toBeLockedKeys fkc' = toBeLockedKeys fkc)
       \<and> (toBeLockedKeys fkc = [] \<and> (\<not> CheckExist fkc \<or> confirmedKeys cd fkc mem snap = {})
            \<longrightarrow> toBeLockedKeys fkc' = [])"
proof -
  from doCheck_grow [OF wf txn run] have g: "locksGrow fkc fkc' (confirmedKeys cd fkc mem snap)" .
  from locksGrow_locked [OF g] show ?thesis by auto
qed

theorem locked_subset_confirmed_witness:
  "wellFormed exMem exSnap
   \<and> Txn exSession = Inr (bufferedTxn exMem exSnap [])
   \<and> toBeLockedKeys (fst (snd (doCheck None exCodec exSession
        (exCheck\<lparr>toBeCheckedKeys := [''t1_r8'']\<rparr>)))) = [''t1_r8'']
   \<and> set (toBeLockedKeys (fst (snd (doCheck None exCodec exSession
        (exCheck\<lparr>toBeCheckedKeys := [''t1_r8'']\<rparr>)))))
       \<subseteq> confirmedKeys exCodec (exCheck\<lparr>toBeCheckedKeys := [''t1_r8'']\<rparr>) exMem exSnap
   \<and> toBeLockedKeys (fst (snd (doCheck None exCodec exSession
        (exCheck\<lparr>toBeCheckedKeys := [''t1_r8''], CheckExist := False\<rparr>)))) = []"
proof -
  let ?fkc = "exCheck\<lparr>toBeCheckedKeys := [''t1_r8'']\<rparr>"
  let ?fkn = "exCheck\<lparr>toBeCheckedKeys := [''t1_r8''], CheckExist := False\<rparr>"
  have wf: "wellFormed exMem exSnap"
    by (simp add: wellFormed_def exMem_def exSnap_def)
  have txn: "Txn exSession = Inr (bufferedTxn exMem exSnap [])"
    by (simp add: exSession_def)
  have run: "doCheck None exCodec exSession ?fkc
      = (fst (doCheck None exCodec exSession ?fkc),
         fst (snd (doCheck None exCodec exSession ?fkc)),
         snd (snd (doCheck None exCodec exSession ?fkc)))"
    by simp
  have runn: "doCheck None exCodec exSession ?fkn
      = (fst (doCheck None exCodec exSession ?fkn),
         fst (snd (doCheck None exCodec exSession ?fkn)),
         snd (snd (doCheck None exCodec exSession ?fkn)))"
    by simp
  have start: "toBeLockedKeys ?fkc = []" "toBeLockedKeys ?fkn = []" "\<not> CheckExist ?fkn"
    by (simp_all add: exCheck_def)
  have locked: "toBeLockedKeys (fst (snd (doCheck None exCodec exSession ?fkc))) = [''t1_r8'']"
    by (simp add: doCheck_def checkKeys_def checkIndexKeys_def prefetchKeys_def checkKey_def
        checkKeyExist_def txnGet_def txnBatchGet_def bufferedTxn_def unionGet_def exSession_def
        exCheck_def exMem_def exSnap_def Let_def)
  from locked_subset_confirmed [OF wf txn run] locked_subset_confirmed [OF wf txn runn]
    wf txn start locked
  show ?thesis by simp
qed

subsection \<open>The dedup set of the value helper\<close>

lemma fetchFKValues_frame [simp]:
  "fetchFKValues (h\<lparr>fkValuesSet := S\<rparr>) rw = fetchFKValues h rw"
  "fetchFKValues (fkc\<lparr>checkRowsCache := c\<rparr>) rw = fetchFKValues fkc rw"
  "fetchFKValues (fkc\<lparr>toBeLockedKeys := ls\<rparr>) rw = fetchFKValues fkc rw"
  "fetchFKValues (fkc\<lparr>toBeCheckedKeys := ks\<rparr>) rw = fetchFKValues fkc rw"
  "fetchFKValues (fkc\<lparr>toBeCheckedPrefixKeys := ks\<rparr>) rw = fetchFKValues fkc rw"
  "fetchFKValues (cas\<lparr>fkValues := vs\<rparr>) rw = fetchFKValues cas rw"
  by (simp_all add: fetchFKValues_def)

lemma buildCheckKeyFromFKValue_frame [simp]:
  "buildCheckKeyFromFKValue cd (fkc\<lparr>fkValuesSet := S\<rparr>) vals = buildCheckKeyFromFKValue cd fkc vals"
  "buildCheckKeyFromFKValue cd (fkc\<lparr>checkRowsCache := c\<rparr>) vals = buildCheckKeyFromFKValue cd fkc vals"
  by (simp_all add: buildCheckKeyFromFKValue_def buildHandleFromFKValues_def
      cong: option.case_cong sum.case_cong)

lemma fetchFKValuesWithCheck_null:
  "fetchFKValues h rw = Inr vals \<Longrightarrow> hasNullValue vals \<Longrightarrow>
   fetchFKValuesWithCheck cd h rw = (Inr [], h)"
  by (simp add: fetchFKValuesWithCheck_def)

lemma fetchFKValuesWithCheck_seen:
  "fetchFKValues h rw = Inr vals \<Longrightarrow> EncodeKey cd vals = Inr kb \<Longrightarrow> kb \<in> fkValuesSet h \<Longrightarrow>
   fetchFKValuesWithCheck cd h rw = (Inr [], h)"
  by (simp add: fetchFKValuesWithCheck_def)

lemma fetchFKValuesWithCheck_first:
  "fetchFKValues h rw = Inr vals \<Longrightarrow> \<not> hasNullValue vals \<Longrightarrow> EncodeKey cd vals = Inr kb \<Longrightarrow>
   kb \<notin> fkValuesSet h \<Longrightarrow>
   fetchFKValuesWithCheck cd h rw = (Inr vals, h\<lparr>fkValuesSet := insert kb (fkValuesSet h)\<rparr>)"
  by (simp add: fetchFKValuesWithCheck_def)

lemma fetchFKValuesWithCheck_grows:
  "fetchFKValuesWithCheck cd h rw = (res, h') \<Longrightarrow>
   fkValuesSet h \<subseteq> fkValuesSet h' \<and> colsOffsets h' = colsOffsets h"
  by (auto simp: fetchFKValuesWithCheck_def split: sum.splits if_splits)

lemma addRowNeedToCheck_grows:
  "fkValuesSet fkc \<subseteq> fkValuesSet (snd (addRowNeedToCheck cd fkc rw))
   \<and> colsOffsets (snd (addRowNeedToCheck cd fkc rw)) = colsOffsets fkc"
proof -
  obtain res h' where f: "fetchFKValuesWithCheck cd fkc rw = (res, h')"
    by (cases "fetchFKValuesWithCheck cd fkc rw")
  from fetchFKValuesWithCheck_grows [OF f] f show ?thesis
    by (auto simp: addRowNeedToCheck_def split: sum.splits if_splits prod.splits)
qed

lemma onDeleteRow_grows:
  "fkValuesSet cas \<subseteq> fkValuesSet (snd (onDeleteRow cd cas rw))
   \<and> colsOffsets (snd (onDeleteRow cd cas rw)) = colsOffsets cas"
proof -
  obtain res h' where f: "fetchFKValuesWithCheck cd cas rw = (res, h')"
    by (cases "fetchFKValuesWithCheck cd cas rw")
  from fetchFKValuesWithCheck_grows [OF f] f show ?thesis
    by (auto simp: onDeleteRow_def split: sum.splits if_splits prod.splits)
qed

lemma addRows_grows:
  "fkValuesSet fkc \<subseteq> fkValuesSet (foldl (\<lambda>st rw. snd (addRowNeedToCheck cd st rw)) fkc mid)
   \<and> colsOffsets (foldl (\<lambda>st rw. snd (addRowNeedToCheck cd st rw)) fkc mid) = colsOffsets fkc"
proof (induction mid arbitrary: fkc)
  case Nil
  show ?case by simp
next
  case (Cons rw mid)
  from Cons.IH [of "snd (addRowNeedToCheck cd fkc rw)"] addRowNeedToCheck_grows [of fkc cd rw]
  show ?case by auto
qed

lemma onDeleteRows_grows:
  "fkValuesSet cas \<subseteq> fkValuesSet (foldl (\<lambda>st rw. snd (onDeleteRow cd st rw)) cas mid)
   \<and> colsOffsets (foldl (\<lambda>st rw. snd (onDeleteRow cd st rw)) cas mid) = colsOffsets cas"
proof (induction mid arbitrary: cas)
  case Nil
  show ?case by simp
next
  case (Cons rw mid)
  from Cons.IH [of "snd (onDeleteRow cd cas rw)"] onDeleteRow_grows [of cas cd rw]
  show ?case by auto
qed

lemma addRowNeedToCheck_marks:
  assumes "fetchFKValues fkc rw = Inr vals" and "\<not> hasNullValue vals" and "EncodeKey cd vals = Inr kb"
  shows "kb \<in> fkValuesSet (snd (addRowNeedToCheck cd fkc rw))"
proof (cases "kb \<in> fkValuesSet fkc")
  case True
  with addRowNeedToCheck_grows [of fkc cd rw] show ?thesis by auto
next
  case False
  with assms show ?thesis
    by (auto simp: addRowNeedToCheck_def fetchFKValuesWithCheck_first split: sum.splits prod.splits)
qed

lemma onDeleteRow_marks:
  assumes "fetchFKValues cas rw = Inr vals" and "\<not> hasNullValue vals" and "EncodeKey cd vals = Inr kb"
  shows "kb \<in> fkValuesSet (snd (onDeleteRow cd cas rw))"
proof (cases "kb \<in> fkValuesSet cas")
  case True
  with onDeleteRow_grows [of cas cd rw] show ?thesis by auto
next
  case False
  with assms show ?thesis
    by (auto simp: onDeleteRow_def fetchFKValuesWithCheck_first split: sum.splits prod.splits)
qed

text \<open>
  C5 (as amended). On the per-row hook path of the check engine and on the cascade path,
  of two rows with the same encoded foreign-key value tuple handled by one engine, with
  any rows in between, the second is a no-op: it returns no error and leaves the engine
  as it is. The first, when its tuple is new and not empty, inserts the tuple into the
  dedup set and has its key built and queued (its values buffered, on the cascade path).
  The tolerant \<^verbatim>\<open>checkRows\<close> path does not use the dedup set: it builds a key for every
  row that is not ignored and has no NULL, also for a repeated value tuple.
\<close>

theorem same_values_checked_once:
  assumes v1: "fetchFKValues fkc r1 = Inr vals1" and v2: "fetchFKValues fkc r2 = Inr vals2"
    and nn: "\<not> hasNullValue vals1"
    and e1: "EncodeKey cd vals1 = Inr kb" and e2: "EncodeKey cd vals2 = Inr kb"
    and offs: "colsOffsets cas = colsOffsets fkc"
  shows "(let fkcA = snd (addRowNeedToCheck cd fkc r1);
              fkcB = foldl (\<lambda>st rw. snd (addRowNeedToCheck cd st rw)) fkcA mid
          in addRowNeedToCheck cd fkcB r2 = (None, fkcB))
       \<and> (let casA = snd (onDeleteRow cd cas r1);
              casB = foldl (\<lambda>st rw. snd (onDeleteRow cd st rw)) casA mid
          in onDeleteRow cd casB r2 = (None, casB))
       \<and> (kb \<notin> fkValuesSet fkc \<and> vals1 \<noteq> [] \<longrightarrow>
            (case buildCheckKeyFromFKValue cd fkc vals1 of
               Inl err \<Rightarrow> fst (addRowNeedToCheck cd fkc r1) = Some err
             | Inr (key, isPrefix) \<Rightarrow>
                 addRowNeedToCheck cd fkc r1 =
                   (None,
                    if isPrefix
                    then fkc\<lparr>fkValuesSet := insert kb (fkValuesSet fkc),
                             toBeCheckedPrefixKeys := toBeCheckedPrefixKeys fkc @ [key]\<rparr>
                    else fkc\<lparr>fkValuesSet := insert kb (fkValuesSet fkc),
                             toBeCheckedKeys := toBeCheckedKeys fkc @ [key]\<rparr>)))
       \<and> (kb \<notin> fkValuesSet cas \<and> vals1 \<noteq> [] \<longrightarrow>
            onDeleteRow cd cas r1 =
              (None, cas\<lparr>fkValuesSet := insert kb (fkValuesSet cas),
                          fkValues := fkValues cas @ [vals1]\<rparr>))
       \<and> (\<not> hasNullValue vals2 \<longrightarrow>
            (case buildCheckKeyFromFKValue cd fkc vals1 of
               Inl err \<Rightarrow> True
             | Inr (key1, p1) \<Rightarrow>
                 (case buildCheckKeyFromFKValue cd fkc vals2 of
                    Inl err \<Rightarrow> True
                  | Inr (key2, p2) \<Rightarrow>
                      checkRows_buildKeys cd fkc
                          [\<lparr>row = r1, ignored = False\<rparr>, \<lparr>row = r2, ignored = False\<rparr>]
                        = Inr ([Some (key1, p1), Some (key2, p2)],
                               (if p1 then [] else [key1]) @ (if p2 then [] else [key2])))))"
proof -
  let ?fkcA = "snd (addRowNeedToCheck cd fkc r1)"
  let ?fkcB = "foldl (\<lambda>st rw. snd (addRowNeedToCheck cd st rw)) ?fkcA mid"
  have "kb \<in> fkValuesSet ?fkcA"
    using v1 nn e1 by (rule addRowNeedToCheck_marks)
  with addRows_grows [of ?fkcA cd mid] have inB: "kb \<in> fkValuesSet ?fkcB" by auto
  have "colsOffsets ?fkcB = colsOffsets fkc"
    using addRows_grows [of ?fkcA cd mid] addRowNeedToCheck_grows [of fkc cd r1] by simp
  then have "fetchFKValues ?fkcB r2 = Inr vals2"
    using v2 by (simp add: fetchFKValues_def)
  then have "fetchFKValuesWithCheck cd ?fkcB r2 = (Inr [], ?fkcB)"
    using e2 inB by (rule fetchFKValuesWithCheck_seen)
  then have "addRowNeedToCheck cd ?fkcB r2 = (None, ?fkcB)"
    by (simp add: addRowNeedToCheck_def)
  then have hook: "(let fkcA = snd (addRowNeedToCheck cd fkc r1);
              fkcB = foldl (\<lambda>st rw. snd (addRowNeedToCheck cd st rw)) fkcA mid
          in addRowNeedToCheck cd fkcB r2 = (None, fkcB))"
    by (simp add: Let_def)
  let ?casA = "snd (onDeleteRow cd cas r1)"
  let ?casB = "foldl (\<lambda>st rw. snd (onDeleteRow cd st rw)) ?casA mid"
  from v1 v2 offs have c1: "fetchFKValues cas r1 = Inr vals1" and c2: "fetchFKValues cas r2 = Inr vals2"
    by (simp_all add: fetchFKValues_def)
  have "kb \<in> fkValuesSet ?casA"
    using c1 nn e1 by (rule onDeleteRow_marks)
  with onDeleteRows_grows [of ?casA cd mid] have inC: "kb \<in> fkValuesSet ?casB" by auto
  have "colsOffsets ?casB = colsOffsets cas"
    using onDeleteRows_grows [of ?casA cd mid] onDeleteRow_grows [of cas cd r1] by simp
  then have "fetchFKValues ?casB r2 = Inr vals2"
    using c2 by (simp add: fetchFKValues_def)
  then have "fetchFKValuesWithCheck cd ?casB r2 = (Inr [], ?casB)"
    using e2 inC by (rule fetchFKValuesWithCheck_seen)
  then have "onDeleteRow cd ?casB r2 = (None, ?casB)"
    by (simp add: onDeleteRow_def)
  then have casc: "(let casA = snd (onDeleteRow cd cas r1);
              casB = foldl (\<lambda>st rw. snd (onDeleteRow cd st rw)) casA mid
          in onDeleteRow cd casB r2 = (None, casB))"
    by (simp add: Let_def)
  have first: "kb \<notin> fkValuesSet fkc \<and> vals1 \<noteq> [] \<longrightarrow>
            (case buildCheckKeyFromFKValue cd fkc vals1 of
               Inl err \<Rightarrow> fst (addRowNeedToCheck cd fkc r1) = Some err
             | Inr (key, isPrefix) \<Rightarrow>
                 addRowNeedToCheck cd fkc r1 =
                   (None,
                    if isPrefix
                    then fkc\<lparr>fkValuesSet := insert kb (fkValuesSet fkc),
                             toBeCheckedPrefixKeys := toBeCheckedPrefixKeys fkc @ [key]\<rparr>
                    else fkc\<lparr>fkValuesSet := insert kb (fkValuesSet fkc),
                             toBeCheckedKeys := toBeCheckedKeys fkc @ [key]\<rparr>))"
    using fetchFKValuesWithCheck_first [OF v1 nn e1]
    by (auto simp: addRowNeedToCheck_def split: sum.splits)
  have firstc: "kb \<notin> fkValuesSet cas \<and> vals1 \<noteq> [] \<longrightarrow>
            onDeleteRow cd cas r1 =
              (None, cas\<lparr>fkValuesSet := insert kb (fkValuesSet cas),
                          fkValues := fkValues cas @ [vals1]\<rparr>)"
    using fetchFKValuesWithCheck_first [OF c1 nn e1]
    by (simp add: onDeleteRow_def)
  have batch: "\<not> hasNullValue vals2 \<longrightarrow>
            (case buildCheckKeyFromFKValue cd fkc vals1 of
               Inl err \<Rightarrow> True
             | Inr (key1, p1) \<Rightarrow>
                 (case buildCheckKeyFromFKValue cd fkc vals2 of
                    Inl err \<Rightarrow> True
                  | Inr (key2, p2) \<Rightarrow>
                      checkRows_buildKeys cd fkc
                          [\<lparr>row = r1, ignored = False\<rparr>, \<lparr>row = r2, ignored = False\<rparr>]
                        = Inr ([Some (key1, p1), Some (key2, p2)],
                               (if p1 then [] else [key1]) @ (if p2 then [] else [key2]))))"
    using v1 v2 nn by (auto split: sum.splits)
  from hook casc first firstc batch show ?thesis
    by blast
qed

lemma ex_row_facts:
  "fetchFKValues exCheck [KindInt64 8] = Inr [KindInt64 8]"
  "\<not> hasNullValue [KindInt64 8]"
  "EncodeKey exCodec [KindInt64 8] = Inr ''8|''"
  "colsOffsets exCascade = colsOffsets exCheck"
  "''8|'' \<notin> fkValuesSet exCheck"
  "buildCheckKeyFromFKValue exCodec exCheck [KindInt64 8] = Inr (''t1_r8'', False)"
  by (simp_all add: fetchFKValues_def exCheck_def exCodec_def exCascade_def FormatInt_def
      FormatUint.simps buildCheckKeyFromFKValue_def buildHandleFromFKValues_def exTable_def)

theorem same_values_checked_once_witness:
  "fetchFKValues exCheck [KindInt64 8] = Inr [KindInt64 8]
   \<and> \<not> hasNullValue [KindInt64 8]
   \<and> EncodeKey exCodec [KindInt64 8] = Inr ''8|''
   \<and> colsOffsets exCascade = colsOffsets exCheck
   \<and> ''8|'' \<notin> fkValuesSet exCheck
   \<and> addRowNeedToCheck exCodec exCheck [KindInt64 8]
       = (None, exCheck\<lparr>fkValuesSet := {''8|''}, toBeCheckedKeys := [''t1_r8'']\<rparr>)
   \<and> (let fkcA = snd (addRowNeedToCheck exCodec exCheck [KindInt64 8]);
           fkcB = foldl (\<lambda>st rw. snd (addRowNeedToCheck exCodec st rw)) fkcA [[KindInt64 9]]
       in addRowNeedToCheck exCodec fkcB [KindInt64 8] = (None, fkcB))"
proof -
  note t = same_values_checked_once [OF ex_row_facts(1) ex_row_facts(1) ex_row_facts(2)
      ex_row_facts(3) ex_row_facts(3) ex_row_facts(4), where mid = "[[KindInt64 9]]"]
  have q: "fkValuesSet exCheck = {}" "toBeCheckedKeys exCheck = []"
    by (simp_all add: exCheck_def)
  have a: "addRowNeedToCheck exCodec exCheck [KindInt64 8]
       = (None, exCheck\<lparr>fkValuesSet := {''8|''}, toBeCheckedKeys := [''t1_r8'']\<rparr>)"
    using t [THEN conjunct2, THEN conjunct2, THEN conjunct1] ex_row_facts q by simp
  note b = t [THEN conjunct1]
  from ex_row_facts(1-5) a b show ?thesis
    by blast
qed

lemmas run_defs = checkRows_def fetchFKValues_def
  buildCheckKeyFromFKValue_def buildHandleFromFKValues_def prefetchKeys_def checkKey_def
  checkKeyExist_def checkKeyNotExist_def txnGet_def txnBatchGet_def IsErrNotFound_def
  AppendWarning_def exRow_def exCheck_def exCodec_def exTable_def FormatInt_def
  FormatUint.simps Let_def

text \<open>
  C5 as stated fails on the \<^verbatim>\<open>checkRows\<close> path: of two rows of one batch with the same
  value tuple, the second has its key built and prefetched like the first, and the
  dedup set is left empty.
\<close>

theorem checkRows_no_value_dedup_counterexample:
  "checkRows_buildKeys exCodec exCheck [exRow 8, exRow 8]
     = Inr ([Some (''t1_r8'', False), Some (''t1_r8'', False)], [''t1_r8'', ''t1_r8''])
   \<and> (case checkRows None exCodec exCheck \<lparr>warnings = []\<rparr> (bufferedTxn exMem exSnap [])
             [exRow 8, exRow 8] of
         (res, fkc', sc', txn', rows') \<Rightarrow>
           res = None \<and> fkValuesSet fkc' = {}
           \<and> accessLog txn' = [AccBatchGet [''t1_r8'', ''t1_r8''], AccGet ''t1_r8''])"
  by (simp add: run_defs bufferedTxn_def unionGet_def exMem_def exSnap_def)

subsection \<open>Rows exempt from the tolerant batch check\<close>

lemma checkRows_buildKeys_length:
  "checkRows_buildKeys cd fkc rows = Inr (cks, pf) \<Longrightarrow> length cks = length rows"
  by (induction rows arbitrary: cks pf) (auto split: if_splits sum.splits prod.splits)

lemma checkRows_buildKeys_exempt:
  assumes "ignored r \<or> (\<exists>vals. fetchFKValues fkc (row r) = Inr vals \<and> hasNullValue vals)"
  shows "checkRows_buildKeys cd fkc (rows1 @ r # rows2) =
     (case checkRows_buildKeys cd fkc (rows1 @ rows2) of
        Inl err \<Rightarrow> Inl err
      | Inr (cks, pf) \<Rightarrow> Inr (take (length rows1) cks @ None # drop (length rows1) cks, pf))"
proof (induction rows1)
  case Nil
  from assms show ?case
    by (auto split: sum.splits prod.splits)
next
  case (Cons a rows1)
  then show ?case
    by (auto split: sum.splits prod.splits)
qed

lemma checkRows_loop_exempt:
  "length cks = length (rows1 @ rows2) \<Longrightarrow>
   checkRows_loop ctx cd fkc cache sc txn (rows1 @ r # rows2)
       (take (length rows1) cks @ None # drop (length rows1) cks) =
     (case checkRows_loop ctx cd fkc cache sc txn (rows1 @ rows2) cks of
        (res, fkc', cache', sc', txn', out) \<Rightarrow>
          (res, fkc', cache', sc', txn', take (length rows1) out @ r # drop (length rows1) out))"
proof (induction rows1 arbitrary: cks fkc cache sc txn)
  case Nil
  then show ?case
    by (cases cks; cases rows2) (auto split: prod.splits)
next
  case (Cons a rows1)
  then obtain ck cks' where cks: "cks = ck # cks'" and len: "length cks' = length (rows1 @ rows2)"
    by (cases cks) auto
  note ih = Cons.IH [OF len]
  show ?case
  proof (cases ck)
    case None
    with cks ih show ?thesis
      by (simp split: prod.splits)
  next
    case (Some kp)
    obtain key isPrefix where kp: "kp = (key, isPrefix)" by (cases kp)
    show ?thesis
    proof (cases "cache key")
      case hit: (Some ignore)
      with cks Some kp ih show ?thesis
        by (simp add: Let_def split: prod.splits)
    next
      case miss: None
      obtain err fkc1 txn1 where c:
        "(if isPrefix then checkPrefixKey ctx cd fkc txn key else checkKey fkc txn key)
           = (err, fkc1, txn1)"
        by (cases "if isPrefix then checkPrefixKey ctx cd fkc txn key else checkKey fkc txn key")
      show ?thesis
      proof (cases "err = Some GoPanic")
        case True
        with cks Some kp miss c show ?thesis
          by simp
      next
        case False
        with cks Some kp miss c ih show ?thesis
          by (simp add: Let_def split: prod.splits)
      qed
    qed
  qed
qed

lemma checkKey_helper:
  "checkKey fkc txn key = (res, fkc', txn') \<Longrightarrow>
   fkValuesSet fkc' = fkValuesSet fkc \<and> colsOffsets fkc' = colsOffsets fkc"
  by (cases "Get txn key")
    (auto simp: checkKey_def checkKeyExist_def checkKeyNotExist_def txnGet_def split: if_splits)

lemma checkPrefixKeyExist_helper:
  "checkPrefixKeyExist cd fkc k' v = (res, fkc') \<Longrightarrow>
   fkValuesSet fkc' = fkValuesSet fkc \<and> colsOffsets fkc' = colsOffsets fkc"
proof (cases "Idx fkc")
  case None
  then show "checkPrefixKeyExist cd fkc k' v = (res, fkc') \<Longrightarrow> ?thesis"
    by (auto simp: checkPrefixKeyExist_def Let_def split: if_splits)
next
  case (Some idx)
  then show "checkPrefixKeyExist cd fkc k' v = (res, fkc') \<Longrightarrow> ?thesis"
    by (cases "DecodeIndexHandle cd k' v (length (Columns idx))")
      (auto simp: checkPrefixKeyExist_def Let_def split: if_splits)
qed

lemma checkPrefixKey_helper:
  assumes "checkPrefixKey ctx cd fkc txn key = (res, fkc', txn')"
  shows "fkValuesSet fkc' = fkValuesSet fkc \<and> colsOffsets fkc' = colsOffsets fkc"
proof (cases "getIndexKeyValueInTable ctx txn key")
  case (Pair g txn1)
  show ?thesis
  proof (cases g)
    case (Inl err)
    with Pair assms show ?thesis by (simp add: checkPrefixKey_def)
  next
    case (Inr kv)
    obtain k' v where kv: "kv = (k', v)" by (cases kv)
    show ?thesis
    proof (cases "CheckExist fkc")
      case True
      obtain r1 f1 where e: "checkPrefixKeyExist cd fkc k' v = (r1, f1)"
        by (cases "checkPrefixKeyExist cd fkc k' v")
      with Pair Inr kv True assms have "fkc' = f1" by (simp add: checkPrefixKey_def)
      with checkPrefixKeyExist_helper [OF e] show ?thesis by simp
    next
      case False
      with Pair Inr kv assms show ?thesis by (auto simp: checkPrefixKey_def split: if_splits)
    qed
  qed
qed

lemma checkRows_loop_helper:
  "checkRows_loop ctx cd fkc cache sc txn rows cks = (res, fkc', cache', sc', txn', out) \<Longrightarrow>
   fkValuesSet fkc' = fkValuesSet fkc \<and> colsOffsets fkc' = colsOffsets fkc"
proof (induction cks arbitrary: rows fkc cache sc txn res fkc' cache' sc' txn' out)
  case Nil
  then show ?case by simp
next
  case (Cons ck cks)
  show ?case
  proof (cases rows)
    case Nil
    with Cons.prems show ?thesis by simp
  next
    case rows: (Cons r rest)
    show ?thesis
    proof (cases ck)
      case None
      obtain res2 f2 c2 s2 t2 o2 where
        l: "checkRows_loop ctx cd fkc cache sc txn rest cks = (res2, f2, c2, s2, t2, o2)"
        by (cases "checkRows_loop ctx cd fkc cache sc txn rest cks") auto
      with Cons.prems rows None have "fkc' = f2" by simp
      with Cons.IH [OF l] show ?thesis by simp
    next
      case (Some kp)
      obtain key isPrefix where kp: "kp = (key, isPrefix)" by (cases kp)
      show ?thesis
      proof (cases "cache key")
        case hit: (Some ignore)
        let ?sc1 = "if ignore then AppendWarning sc (FailedErr fkc) else sc"
        obtain res2 f2 c2 s2 t2 o2 where
          l: "checkRows_loop ctx cd fkc cache ?sc1 txn rest cks = (res2, f2, c2, s2, t2, o2)"
          by (cases "checkRows_loop ctx cd fkc cache ?sc1 txn rest cks") auto
        with Cons.prems rows Some kp hit have "fkc' = f2" by (simp add: Let_def)
        with Cons.IH [OF l] show ?thesis by simp
      next
        case miss: None
        obtain err fkc1 txn1 where c:
          "(if isPrefix then checkPrefixKey ctx cd fkc txn key else checkKey fkc txn key)
             = (err, fkc1, txn1)"
          by (cases "if isPrefix then checkPrefixKey ctx cd fkc txn key else checkKey fkc txn key")
        then have f1: "fkValuesSet fkc1 = fkValuesSet fkc \<and> colsOffsets fkc1 = colsOffsets fkc"
          using checkKey_helper [of fkc txn key err fkc1 txn1]
            checkPrefixKey_helper [of ctx cd fkc txn key err fkc1 txn1]
          by (simp split: if_splits)
        show ?thesis
        proof (cases "err = Some GoPanic")
          case True
          with Cons.prems rows Some kp miss c f1 show ?thesis by simp
        next
          case False
          let ?sc1 = "if err \<noteq> None then AppendWarning sc (FailedErr fkc1) else sc"
          let ?c2 = "(if err \<noteq> None then cache(key \<mapsto> True) else cache)(key \<mapsto> False)"
          obtain res2 f2 c2 s2 t2 o2 where
            l: "checkRows_loop ctx cd fkc1 ?c2 ?sc1 txn1 rest cks = (res2, f2, c2, s2, t2, o2)"
            by (cases "checkRows_loop ctx cd fkc1 ?c2 ?sc1 txn1 rest cks") auto
          with Cons.prems rows Some kp miss c False have "fkc' = f2" by (simp add: Let_def)
          with Cons.IH [OF l] f1 show ?thesis by simp
        qed
      qed
    qed
  qed
qed

lemma checkRows_keeps_set:
  assumes "checkRows ctx cd fkc sc txn rows = (res, fkc', sc', txn', out)"
  shows "fkValuesSet fkc' = fkValuesSet fkc"
proof (cases "rows = []")
  case True
  with assms show ?thesis by (simp add: checkRows_def)
next
  case False
  let ?cache0 = "case checkRowsCache fkc of None \<Rightarrow> Map.empty | Some m \<Rightarrow> m"
  let ?fkc0 = "fkc\<lparr>checkRowsCache := Some ?cache0\<rparr>"
  show ?thesis
  proof (cases "checkRows_buildKeys cd ?fkc0 rows")
    case (Inl err)
    with False assms show ?thesis by (auto simp: checkRows_def Let_def)
  next
    case (Inr b)
    obtain cks pf where b: "b = (cks, pf)" by (cases b)
    obtain perr txn1 where pre:
      "(if length pf > 0 then prefetchKeys txn pf else (None, txn)) = (perr, txn1)"
      by (cases "if length pf > 0 then prefetchKeys txn pf else (None, txn)")
    show ?thesis
    proof (cases perr)
      case (Some err)
      with False Inr b pre assms show ?thesis by (auto simp: checkRows_def Let_def)
    next
      case None
      obtain res2 f2 c2 s2 t2 o2 where
        l: "checkRows_loop ctx cd ?fkc0 ?cache0 sc txn1 rows cks = (res2, f2, c2, s2, t2, o2)"
        by (cases "checkRows_loop ctx cd ?fkc0 ?cache0 sc txn1 rows cks") auto
      with False Inr b pre None assms have "fkc' = f2\<lparr>checkRowsCache := Some c2\<rparr>"
        by (auto simp: checkRows_def Let_def)
      with checkRows_loop_helper [OF l] show ?thesis by simp
    qed
  qed
qed

lemma checkRows_nonempty:
  "rows \<noteq> [] \<Longrightarrow>
   checkRows ctx cd fkc sc txn rows =
     (let cache0 = (case checkRowsCache fkc of None \<Rightarrow> Map.empty | Some m \<Rightarrow> m);
          fkc0 = fkc\<lparr>checkRowsCache := Some cache0\<rparr>
      in case checkRows_buildKeys cd fkc0 rows of
           Inl err \<Rightarrow> (Some err, fkc0, sc, txn, rows)
         | Inr (fkCheckKeys, prefetch) \<Rightarrow>
             (case (if length prefetch > 0 then prefetchKeys txn prefetch else (None, txn)) of
                (Some err, txn1) \<Rightarrow> (Some err, fkc0, sc, txn1, rows)
              | (None, txn1) \<Rightarrow>
                  (case checkRows_loop ctx cd fkc0 cache0 sc txn1 rows fkCheckKeys of
                     (res, fkc1, cache1, sc1, txn2, rows1) \<Rightarrow>
                       (res, fkc1\<lparr>checkRowsCache := Some cache1\<rparr>, sc1, txn2, rows1))))"
  by (simp add: checkRows_def)

lemma checkRows_exempt:
  assumes ex: "ignored r \<or> (\<exists>vals. fetchFKValues fkc (row r) = Inr vals \<and> hasNullValue vals)"
  shows "(case checkRows ctx cd fkc sc txn (rows1 @ r # rows2) of
            (resA, fkcA, scA, txnA, outA) \<Rightarrow>
              (case checkRows ctx cd fkc sc txn (rows1 @ rows2) of
                 (resB, fkcB, scB, txnB, outB) \<Rightarrow>
                   resA = resB \<and> scA = scB \<and> txnA = txnB
                   \<and> toBeLockedKeys fkcA = toBeLockedKeys fkcB
                   \<and> outA = take (length rows1) outB @ r # drop (length rows1) outB))"
proof -
  let ?cache0 = "case checkRowsCache fkc of None \<Rightarrow> Map.empty | Some m \<Rightarrow> m"
  let ?fkc0 = "fkc\<lparr>checkRowsCache := Some ?cache0\<rparr>"
  let ?n = "length rows1"
  from ex have ex0: "ignored r \<or> (\<exists>vals. fetchFKValues ?fkc0 (row r) = Inr vals \<and> hasNullValue vals)"
    by simp
  note bk = checkRows_buildKeys_exempt [OF ex0, of cd rows1 rows2]
  show ?thesis
  proof (cases "rows1 @ rows2 = []")
    case True
    then have e: "rows1 = []" "rows2 = []" by simp_all
    with bk have "checkRows_buildKeys cd ?fkc0 [r] = Inr ([None], [])" by simp
    with e show ?thesis
      by (simp add: checkRows_def Let_def)
  next
    case False
    note unB = checkRows_nonempty [OF False, of ctx cd fkc sc txn]
    have "rows1 @ r # rows2 \<noteq> []" by simp
    note unA = checkRows_nonempty [OF this, of ctx cd fkc sc txn]
    show ?thesis
    proof (cases "checkRows_buildKeys cd ?fkc0 (rows1 @ rows2)")
      case (Inl err)
      with bk have "checkRows_buildKeys cd ?fkc0 (rows1 @ r # rows2) = Inl err" by simp
      with Inl show ?thesis
        by (simp add: unA unB Let_def)
    next
      case (Inr b)
      obtain cks pf where b: "b = (cks, pf)" by (cases b)
      with Inr have len: "length cks = length (rows1 @ rows2)"
        by (auto dest: checkRows_buildKeys_length)
      from bk Inr b have bA: "checkRows_buildKeys cd ?fkc0 (rows1 @ r # rows2)
          = Inr (take ?n cks @ None # drop ?n cks, pf)"
        by simp
      obtain perr txn1 where pre:
        "(if length pf > 0 then prefetchKeys txn pf else (None, txn)) = (perr, txn1)"
        by (cases "if length pf > 0 then prefetchKeys txn pf else (None, txn)")
      show ?thesis
      proof (cases perr)
        case (Some err)
        with Inr b bA pre show ?thesis
          by (simp add: unA unB Let_def)
      next
        case None
        note lp = checkRows_loop_exempt [OF len]
        obtain res2 f2 c2 s2 t2 o2 where
          l: "checkRows_loop ctx cd ?fkc0 ?cache0 sc txn1 (rows1 @ rows2) cks
                = (res2, f2, c2, s2, t2, o2)"
          by (cases "checkRows_loop ctx cd ?fkc0 ?cache0 sc txn1 (rows1 @ rows2) cks") auto
        with lp have lA: "checkRows_loop ctx cd ?fkc0 ?cache0 sc txn1 (rows1 @ r # rows2)
              (take ?n cks @ None # drop ?n cks)
            = (res2, f2, c2, s2, t2, take ?n o2 @ r # drop ?n o2)"
          by simp
        from Inr b pre None l
        have B: "checkRows ctx cd fkc sc txn (rows1 @ rows2)
            = (res2, f2\<lparr>checkRowsCache := Some c2\<rparr>, s2, t2, o2)"
          by (simp add: unB Let_def)
        from bA pre None lA
        have A: "checkRows ctx cd fkc sc txn (rows1 @ r # rows2)
            = (res2, f2\<lparr>checkRowsCache := Some c2\<rparr>, s2, t2, take ?n o2 @ r # drop ?n o2)"
          by (simp add: unA Let_def)
        from A B show ?thesis by simp
      qed
    qed
  qed
qed

lemma checkRows_buildKeys_exempt_nil:
  assumes ex: "ignored r \<or> (\<exists>vals. fetchFKValues fkc (row r) = Inr vals \<and> hasNullValue vals)"
  shows "(case checkRows_buildKeys cd fkc (rows1 @ r # rows2) of
            Inl err \<Rightarrow> True
          | Inr (cks, pf) \<Rightarrow> cks ! length rows1 = None)"
proof (cases "checkRows_buildKeys cd fkc (rows1 @ rows2)")
  case (Inl err)
  with checkRows_buildKeys_exempt [OF ex, of cd rows1 rows2] show ?thesis by simp
next
  case (Inr b)
  obtain cks pf where b: "b = (cks, pf)" by (cases b)
  with Inr have "length cks = length (rows1 @ rows2)"
    by (auto dest: checkRows_buildKeys_length)
  then have "length (take (length rows1) cks) = length rows1" by simp
  then have "(take (length rows1) cks @ None # drop (length rows1) cks) ! length rows1 = None"
    by (metis nth_append_length)
  with checkRows_buildKeys_exempt [OF ex, of cd rows1 rows2] Inr b show ?thesis by simp
qed

text \<open>
  C3. A row whose projected foreign-key values contain a NULL is exempt.
  \<^verbatim>\<open>fetchFKValuesWithCheck\<close> returns no values and no error and leaves the dedup set as
  it is; the hooks of the check engine and \<^verbatim>\<open>onDeleteRow\<close> of the cascade engine
  return no error and leave their engine unchanged (no key built, nothing queued or
  buffered; they take no transaction). In \<^verbatim>\<open>checkRows\<close> the row gets no check key and
  changes nothing: the
  batch with the row gives the error, the warnings, the transaction with its access log
  and the keys to lock of the batch without it, the row itself comes back as it went in
  between the other rows, and the dedup set is untouched.
\<close>

theorem null_row_exempt:
  assumes nul: "hasNullValue vals"
    and f1: "fetchFKValues fkc rw = Inr vals"
    and f2: "fetchFKValues cas rw = Inr vals"
    and r: "row r = rw"
  shows "fetchFKValuesWithCheck cd fkc rw = (Inr [], fkc)
       \<and> addRowNeedToCheck cd fkc rw = (None, fkc)
       \<and> insertRowNeedToCheck cd fkc rw = (None, fkc)
       \<and> deleteRowNeedToCheck cd fkc rw = (None, fkc)
       \<and> updateRowNeedToCheck cd fkc rw rw = (None, fkc)
       \<and> onDeleteRow cd cas rw = (None, cas)
       \<and> (case checkRows_buildKeys cd fkc (rows1 @ r # rows2) of
            Inl err \<Rightarrow> True
          | Inr (cks, pf) \<Rightarrow> cks ! length rows1 = None)
       \<and> (case checkRows ctx cd fkc sc txn (rows1 @ r # rows2) of
            (resA, fkcA, scA, txnA, outA) \<Rightarrow>
              (case checkRows ctx cd fkc sc txn (rows1 @ rows2) of
                 (resB, fkcB, scB, txnB, outB) \<Rightarrow>
                   resA = resB \<and> scA = scB \<and> txnA = txnB
                   \<and> toBeLockedKeys fkcA = toBeLockedKeys fkcB
                   \<and> fkValuesSet fkcA = fkValuesSet fkc
                   \<and> outA = take (length rows1) outB @ r # drop (length rows1) outB))"
proof -
  have w: "fetchFKValuesWithCheck cd fkc rw = (Inr [], fkc)"
    using f1 nul by (rule fetchFKValuesWithCheck_null)
  then have a: "addRowNeedToCheck cd fkc rw = (None, fkc)"
    by (simp add: addRowNeedToCheck_def)
  have "fetchFKValuesWithCheck cd cas rw = (Inr [], cas)"
    using f2 nul by (rule fetchFKValuesWithCheck_null)
  then have c: "onDeleteRow cd cas rw = (None, cas)"
    by (simp add: onDeleteRow_def)
  have ex: "ignored r \<or> (\<exists>vals. fetchFKValues fkc (row r) = Inr vals \<and> hasNullValue vals)"
    using nul f1 r by blast
  obtain resA fkcA scA txnA outA where
    A: "checkRows ctx cd fkc sc txn (rows1 @ r # rows2) = (resA, fkcA, scA, txnA, outA)"
    by (cases "checkRows ctx cd fkc sc txn (rows1 @ r # rows2)") auto
  from checkRows_keeps_set [OF A] have k: "fkValuesSet fkcA = fkValuesSet fkc" .
  from checkRows_exempt [OF ex, where ctx = ctx and cd = cd and sc = sc and txn = txn
      and ?rows1.0 = rows1 and ?rows2.0 = rows2] A k
  have b: "(case checkRows ctx cd fkc sc txn (rows1 @ r # rows2) of
            (resA, fkcA, scA, txnA, outA) \<Rightarrow>
              (case checkRows ctx cd fkc sc txn (rows1 @ rows2) of
                 (resB, fkcB, scB, txnB, outB) \<Rightarrow>
                   resA = resB \<and> scA = scB \<and> txnA = txnB
                   \<and> toBeLockedKeys fkcA = toBeLockedKeys fkcB
                   \<and> fkValuesSet fkcA = fkValuesSet fkc
                   \<and> outA = take (length rows1) outB @ r # drop (length rows1) outB))"
    by (auto split: prod.splits)
  note n = checkRows_buildKeys_exempt_nil [OF ex, where cd = cd and ?rows1.0 = rows1
      and ?rows2.0 = rows2]
  have h: "insertRowNeedToCheck cd fkc rw = (None, fkc)"
    "deleteRowNeedToCheck cd fkc rw = (None, fkc)"
    "updateRowNeedToCheck cd fkc rw rw = (None, fkc)"
    using a by (simp_all add: insertRowNeedToCheck_def deleteRowNeedToCheck_def
        updateRowNeedToCheck_def)
  from w a h c n b show ?thesis
    by blast
qed

theorem null_row_exempt_witness:
  "hasNullValue [KindNull]
   \<and> fetchFKValues exCheck [KindNull] = Inr [KindNull]
   \<and> fetchFKValues exCascade [KindNull] = Inr [KindNull]
   \<and> row nullRow = [KindNull]
   \<and> fetchFKValuesWithCheck exCodec exCheck [KindNull] = (Inr [], exCheck)
   \<and> addRowNeedToCheck exCodec exCheck [KindNull] = (None, exCheck)
   \<and> onDeleteRow exCodec exCascade [KindNull] = (None, exCascade)"
proof -
  have nul: "hasNullValue [KindNull]" by simp
  have f1: "fetchFKValues exCheck [KindNull] = Inr [KindNull]"
    by (simp add: fetchFKValues_def exCheck_def)
  have f2: "fetchFKValues exCascade [KindNull] = Inr [KindNull]"
    by (simp add: fetchFKValues_def exCascade_def)
  have r: "row nullRow = [KindNull]" by (simp add: nullRow_def)
  from null_row_exempt [OF nul f1 f2 r, where cd = exCodec] nul f1 f2 r
  show ?thesis by blast
qed

subsection \<open>Errors and the cache in the tolerant batch path\<close>

text \<open>
  C7. The claim does not hold in \<^verbatim>\<open>checkRows\<close>: on a transaction whose reads fail with
  a storage error, the check of the row's key (a point key read, or a prefix scan of the
  snapshot) returns that error, and \<^verbatim>\<open>checkRows\<close> marks the row ignored, appends the
  constraint violation \<^verbatim>\<open>FailedErr\<close> as a warning and returns no error. On the same
  transaction the check of the same key at the end of a statement (\<^verbatim>\<open>checkKeys\<close>)
  returns the storage error. Besides, a snapshot iterator whose \<^verbatim>\<open>Next()\<close> fails and
  leaves it invalid ends the loop of the merge-scan before the error is looked at: the
  scan reports nothing found and a check for non-existence passes.
\<close>

theorem checkRows_swallows_storage_fault:
  "(case checkRows None exCodec exCheck \<lparr>warnings = []\<rparr> faultyTxn [exRow 8] of
      (res, fkc', sc', txn', rows') \<Rightarrow>
        res = None \<and> map ignored rows' = [True] \<and> warnings sc' = [ErrNoReferencedRow])
   \<and> fst (checkKey exCheck faultyTxn ''t1_r8'') = Some (ErrExternal ''region unavailable'')
   \<and> fst (checkKeys (exCheck\<lparr>toBeCheckedKeys := [''t1_r8'']\<rparr>) faultyTxn)
       = Some (ErrExternal ''region unavailable'')
   \<and> (case checkRows None exCodec exIndexCheck \<lparr>warnings = []\<rparr> faultyTxn [exRow 8] of
        (res, fkc', sc', txn', rows') \<Rightarrow>
          res = None \<and> map ignored rows' = [True] \<and> warnings sc' = [ErrNoReferencedRow])
   \<and> fst (checkPrefixKey None exCodec exIndexCheck faultyTxn ''t1_i18|'')
       = Some (ErrExternal ''region unavailable'')
   \<and> fst (getIndexKeyValueInTable None scanFaultTxn ''t1_i11|'') = Inr ([], [])
   \<and> fst (checkPrefixKey None exCodec (exIndexCheck\<lparr>CheckExist := False\<rparr>) scanFaultTxn
          ''t1_i11|'') = None"
  by (simp add: run_defs faultyTxn_def scanFaultTxn_def checkKeys_def exIndexCheck_def exIndex_def
      checkPrefixKey_def getIndexKeyValueInTable_def txnMemIter_def txnSnapIter_def)

text \<open>
  C8. The claim does not hold: after a failing check \<^verbatim>\<open>checkRows\<close> stores the verdict
  \<^verbatim>\<open>true\<close> for the key and at once overwrites it with \<^verbatim>\<open>false\<close>. Of two rows of one
  batch with the same key and no parent row, the first is marked ignored with a warning;
  the second hits the cache, is not resolved against storage again, and is left
  unmarked with no warning.
\<close>

theorem checkRows_cache_forgets_failure:
  "(case checkRows None exCodec exCheck \<lparr>warnings = []\<rparr> (bufferedTxn exMem exSnap [])
          [exRow 5, exRow 5] of
      (res, fkc', sc', txn', rows') \<Rightarrow>
        res = None \<and> map ignored rows' = [True, False]
        \<and> warnings sc' = [ErrNoReferencedRow]
        \<and> checkRowsCache fkc' \<noteq> None \<and> the (checkRowsCache fkc') ''t1_r5'' = Some False
        \<and> accessLog txn' = [AccBatchGet [''t1_r5'', ''t1_r5''], AccGet ''t1_r5''])"
  by (simp add: run_defs bufferedTxn_def unionGet_def exMem_def exSnap_def)

end
